theory Spec2Isabelle
  imports Complex_Main
begin

section \<open>Python exceptions and indexing\<close>

text \<open>
  \<open>solve_transportation\<close> (app.py, lines 5-52) raises nothing itself; what can escape it
  are the exceptions of the operations it calls: an \<open>IndexError\<close> from list indexing
  and PuLP's \<open>PulpError\<close> when a constraint is added under a name the problem already
  has. Numbers are Python floats; they are modelled as exact reals.
\<close>

datatype error = IndexError | PulpError

definition and_then :: "error + 'a \<Rightarrow> ('a \<Rightarrow> error + 'b) \<Rightarrow> error + 'b" where
  "and_then r k = (case r of Inl e \<Rightarrow> Inl e | Inr a \<Rightarrow> k a)"

text \<open>\<open>xs[i]\<close> for an index produced by \<open>range\<close> (never negative).\<close>

definition item :: "'a list \<Rightarrow> nat \<Rightarrow> error + 'a" where
  "item xs i = (if i < length xs then Inr (xs ! i) else Inl IndexError)"

text \<open>\<open>rows[i][j]\<close>: the row is fetched first, then the entry.\<close>

definition item2 :: "'a list list \<Rightarrow> nat \<Rightarrow> nat \<Rightarrow> error + 'a" where
  "item2 rows i j = and_then (item rows i) (\<lambda>row. item row j)"

text \<open>
  The position a Python integer index denotes in a list of length \<open>n\<close>: a negative index
  counts from the end, anything outside \<open>[-n, n)\<close> raises.
\<close>

definition py_index :: "nat \<Rightarrow> int \<Rightarrow> error + nat" where
  "py_index n i =
     (if 0 \<le> i \<and> i < int n then Inr (nat i)
      else if - int n \<le> i \<and> i < 0 then Inr (nat (int n + i))
      else Inl IndexError)"

text \<open>A generator expression evaluated left to right, stopping at the first exception.\<close>

fun gather :: "('a \<Rightarrow> error + 'b) \<Rightarrow> 'a list \<Rightarrow> error + 'b list" where
  "gather f [] = Inr []"
| "gather f (a # as) = and_then (f a) (\<lambda>b. and_then (gather f as) (\<lambda>bs. Inr (b # bs)))"

text \<open>A \<open>for\<close> loop whose body updates the problem or raises.\<close>

fun for_each :: "'a list \<Rightarrow> ('a \<Rightarrow> 's \<Rightarrow> error + 's) \<Rightarrow> 's \<Rightarrow> error + 's" where
  "for_each [] body s = Inr s"
| "for_each (a # as) body s = and_then (body a s) (for_each as body)"

text \<open>\<open>for i in range(m) for j in range(n)\<close>, in iteration order.\<close>

definition routes :: "nat \<Rightarrow> nat \<Rightarrow> (nat \<times> nat) list" where
  "routes m n = concat (map (\<lambda>i. map (\<lambda>j. (i, j)) [0..<n]) [0..<m])"

section \<open>The PuLP objects the function builds\<close>

text \<open>
  \<open>LpVariable(f"x_{i}_{j}", lowBound=0)\<close>: a continuous variable named by its route, with
  lower bound 0 and no upper bound. Inside the loops over \<open>range\<close> the list access
  \<open>x[i][j]\<close> is in range and yields the variable created for \<open>(i, j)\<close>.
\<close>

record lp_variable =
  var_name :: "nat \<times> nat"
  lowBound :: "real option"
  upBound :: "real option"

definition LpVariable :: "nat \<Rightarrow> nat \<Rightarrow> lp_variable" where
  "LpVariable i j = \<lparr>var_name = (i, j), lowBound = Some 0, upBound = None\<rparr>"

text \<open>
  A linear expression is the list of its terms (variable, coefficient). PuLP keeps a
  dictionary keyed by variable; every expression built here mentions a variable at most once.
  Multiplying a variable by the number 0 gives PuLP's empty expression, and \<open>lpSum\<close> joins
  the terms of its arguments.
\<close>

type_synonym affine = "(lp_variable \<times> real) list"

definition var_term :: "lp_variable \<Rightarrow> affine" where
  "var_term v = [(v, 1)]"

definition times :: "real \<Rightarrow> lp_variable \<Rightarrow> affine" where
  "times c v = (if c \<noteq> 0 then [(v, c)] else [])"

definition lpSum :: "affine list \<Rightarrow> affine" where
  "lpSum es = concat es"

datatype sense = LpConstraintLE | LpConstraintGE | LpConstraintEQ

record lp_constraint =
  lhs :: affine
  sense :: sense
  rhs :: real

text \<open>
  The constraint names \<open>f"Supply_{i}"\<close>, \<open>f"Demand_{j}"\<close>, \<open>f"Capacity_{i}_{j}"\<close>,
  \<open>f"RouteMin_{i}_{j}"\<close> and \<open>f"Prohibited_{i}_{j}"\<close>, kept as a tag with the formatted
  numbers (two names are the same string exactly when tag and numbers agree).
\<close>

datatype cname =
    Supply nat
  | Demand nat
  | Capacity nat nat
  | RouteMin nat nat
  | Prohibited int int

text \<open>
  \<open>LpProblem("Transportation_Problem", LpMinimize)\<close>: a problem has a sense, an
  objective and its named constraints.
\<close>

datatype lp_sense = LpMinimize | LpMaximize

record lp_problem =
  problem_sense :: lp_sense
  objective :: affine
  constraints :: "(cname \<times> lp_constraint) list"

text \<open>
  \<open>prob += constraint, name\<close>: PuLP's \<open>addConstraint\<close> refuses a name that is already in the
  problem (\<open>PulpError\<close>, "overlapping constraint names"), otherwise the constraint is stored
  under its name after the ones already there.
\<close>

definition addConstraint :: "cname \<times> lp_constraint \<Rightarrow> lp_problem \<Rightarrow> error + lp_problem" where
  "addConstraint nc prob =
     (if fst nc \<in> fst ` set (constraints prob) then Inl PulpError
      else Inr (prob\<lparr>constraints := constraints prob @ [nc]\<rparr>))"

text \<open>\<open>if capacities:\<close> is false for \<open>None\<close> and for an empty list.\<close>

definition truthy :: "'a list option \<Rightarrow> bool" where
  "truthy opt = (case opt of None \<Rightarrow> False | Some xs \<Rightarrow> xs \<noteq> [])"

section \<open>Building the model (app.py, lines 6-41)\<close>

definition build_model ::
  "real list list \<Rightarrow> real list \<Rightarrow> real list \<Rightarrow> real list list option \<Rightarrow>
   real list list option \<Rightarrow> (int \<times> int) list option \<Rightarrow> error + lp_problem" where
  "build_model costs supply demand capacities route_minimums prohibited_routes =
    (let num_origins = length supply;
         num_destinations = length demand
     in
     and_then
       (gather (\<lambda>(i, j). and_then (item2 costs i j) (\<lambda>c. Inr (times c (LpVariable i j))))
          (routes num_origins num_destinations))
       (\<lambda>terms.
     and_then
       (for_each [0..<num_origins]
          (\<lambda>i. addConstraint
             (Supply i,
              \<lparr>lhs = lpSum (map (\<lambda>j. var_term (LpVariable i j)) [0..<num_destinations]),
               sense = LpConstraintLE, rhs = supply ! i\<rparr>))
          \<lparr>problem_sense = LpMinimize, objective = lpSum terms, constraints = []\<rparr>)
       (\<lambda>prob.
     and_then
       (for_each [0..<num_destinations]
          (\<lambda>j. addConstraint
             (Demand j,
              \<lparr>lhs = lpSum (map (\<lambda>i. var_term (LpVariable i j)) [0..<num_origins]),
               sense = LpConstraintGE, rhs = demand ! j\<rparr>))
          prob)
       (\<lambda>prob.
     and_then
       (if truthy capacities then
          for_each (routes num_origins num_destinations)
            (\<lambda>(i, j) prob. and_then (item2 (the capacities) i j)
               (\<lambda>c. addConstraint
                  (Capacity i j,
                   \<lparr>lhs = var_term (LpVariable i j), sense = LpConstraintLE, rhs = c\<rparr>) prob))
            prob
        else Inr prob)
       (\<lambda>prob.
     and_then
       (if truthy route_minimums then
          for_each (routes num_origins num_destinations)
            (\<lambda>(i, j) prob. and_then (item2 (the route_minimums) i j)
               (\<lambda>c. addConstraint
                  (RouteMin i j,
                   \<lparr>lhs = var_term (LpVariable i j), sense = LpConstraintGE, rhs = c\<rparr>) prob))
            prob
        else Inr prob)
       (\<lambda>prob.
       if truthy prohibited_routes then
          for_each (the prohibited_routes)
            (\<lambda>(i, j) prob. and_then (py_index num_origins i)
               (\<lambda>a. and_then (py_index num_destinations j)
               (\<lambda>b. addConstraint
                  (Prohibited i j,
                   \<lparr>lhs = var_term (LpVariable a b), sense = LpConstraintEQ, rhs = 0\<rparr>) prob)))
            prob
        else Inr prob))))))"

section \<open>What the solver leaves behind, and the result (app.py, lines 43-52)\<close>

text \<open>
  \<open>prob.solve()\<close> runs an external LP solver. It sets \<open>prob.status\<close> to a status code and
  may set the \<open>varValue\<close> of variables (\<open>None\<close> until set). The solver is a parameter.
\<close>

datatype lp_status =
    LpStatusNotSolved
  | LpStatusOptimal
  | LpStatusInfeasible
  | LpStatusUnbounded
  | LpStatusUndefined

record solver_outcome =
  status_code :: lp_status
  varValue :: "nat \<times> nat \<Rightarrow> real option"

text \<open>
  PuLP's table \<open>LpStatus\<close>, from its five status codes (0, 1, -1, -2, -3, in the order
  of the constructors above) to their names.
\<close>

fun LpStatus :: "lp_status \<Rightarrow> string" where
  "LpStatus LpStatusNotSolved = ''Not Solved''"
| "LpStatus LpStatusOptimal = ''Optimal''"
| "LpStatus LpStatusInfeasible = ''Infeasible''"
| "LpStatus LpStatusUnbounded = ''Unbounded''"
| "LpStatus LpStatusUndefined = ''Undefined''"

text \<open>
  PuLP's \<open>LpAffineExpression.value()\<close>: \<open>None\<close> as soon as a variable of the expression
  has no value, otherwise the sum of value times coefficient.
\<close>

fun affine_value :: "(nat \<times> nat \<Rightarrow> real option) \<Rightarrow> affine \<Rightarrow> real option" where
  "affine_value vals [] = Some 0"
| "affine_value vals ((v, c) # ts) =
     (case vals (var_name v) of
        None \<Rightarrow> None
      | Some a \<Rightarrow> (case affine_value vals ts of None \<Rightarrow> None | Some s \<Rightarrow> Some (a * c + s)))"

text \<open>
  \<open>prob.objective.value()\<close> is read after \<open>prob.solve()\<close>, and \<open>solve\<close> touches the
  objective: when the objective has no terms (every cost is 0, or there is no route), PuLP
  adds its variable \<open>__dummy\<close> to it before the solver runs and subtracts it again
  afterwards, which leaves the term \<open>__dummy\<close> with coefficient 0 in the objective. The
  solver's values are never stored in \<open>__dummy\<close>, so \<open>value()\<close> meets a variable without
  a value and returns \<open>None\<close>. An objective with terms is left as it was built.
\<close>

definition value_after_solve :: "(nat \<times> nat \<Rightarrow> real option) \<Rightarrow> affine \<Rightarrow> real option" where
  "value_after_solve vals obj = (if obj = [] then None else affine_value vals obj)"

record solution =
  status :: string
  total_cost :: "real option"
  variables :: "((nat \<times> nat) \<times> real option) list"

definition solve_transportation ::
  "(lp_problem \<Rightarrow> solver_outcome) \<Rightarrow> real list list \<Rightarrow> real list \<Rightarrow> real list \<Rightarrow>
   real list list option \<Rightarrow> real list list option \<Rightarrow> (int \<times> int) list option \<Rightarrow>
   error + solution" where
  "solve_transportation solver costs supply demand capacities route_minimums prohibited_routes =
     and_then (build_model costs supply demand capacities route_minimums prohibited_routes)
       (\<lambda>prob.
          let solved = solver prob in
          Inr \<lparr>status = LpStatus (status_code solved),
               total_cost = value_after_solve (varValue solved) (objective prob),
               variables = map (\<lambda>(i, j). ((i, j), varValue solved (i, j)))
                             (routes (length supply) (length demand))\<rparr>)"

section \<open>The meaning of a model\<close>

text \<open>
  An assignment of values satisfies a constraint when its left-hand side has a value that
  stands in the constraint's relation to the right-hand side, and respects a variable when
  the variable has a value within its bounds. A problem is satisfied when both hold
  throughout.
\<close>

definition constraint_holds :: "(nat \<times> nat \<Rightarrow> real option) \<Rightarrow> lp_constraint \<Rightarrow> bool" where
  "constraint_holds vals c =
     (case affine_value vals (lhs c) of
        None \<Rightarrow> False
      | Some s \<Rightarrow>
          (case sense c of
             LpConstraintLE \<Rightarrow> s \<le> rhs c
           | LpConstraintGE \<Rightarrow> rhs c \<le> s
           | LpConstraintEQ \<Rightarrow> s = rhs c))"

definition within_bounds :: "(nat \<times> nat \<Rightarrow> real option) \<Rightarrow> lp_variable \<Rightarrow> bool" where
  "within_bounds vals v =
     (case vals (var_name v) of
        None \<Rightarrow> False
      | Some a \<Rightarrow>
          (case lowBound v of None \<Rightarrow> True | Some l \<Rightarrow> l \<le> a) \<and>
          (case upBound v of None \<Rightarrow> True | Some u \<Rightarrow> a \<le> u))"

definition problem_variables :: "lp_problem \<Rightarrow> lp_variable list" where
  "problem_variables prob =
     map fst (objective prob) @ concat (map (\<lambda>nc. map fst (lhs (snd nc))) (constraints prob))"

definition feasible :: "lp_problem \<Rightarrow> (nat \<times> nat \<Rightarrow> real option) \<Rightarrow> bool" where
  "feasible prob vals =
     (list_all (within_bounds vals) (problem_variables prob) \<and>
      list_all (\<lambda>nc. constraint_holds vals (snd nc)) (constraints prob))"

section \<open>Inputs on which the builder raises nothing\<close>

text \<open>
  \<open>covers rows m n\<close>: every \<open>rows[i][j]\<close> the loops read exists. \<open>position\<close> is the
  place an in-range Python index denotes.
\<close>

definition covers :: "'a list list \<Rightarrow> nat \<Rightarrow> nat \<Rightarrow> bool" where
  "covers rows m n = list_all (\<lambda>(i, j). i < length rows \<and> j < length (rows ! i)) (routes m n)"

definition in_range :: "nat \<Rightarrow> int \<Rightarrow> bool" where
  "in_range n i = (- int n \<le> i \<and> i < int n)"

definition position :: "nat \<Rightarrow> int \<Rightarrow> nat" where
  "position n i = (if i < 0 then nat (int n + i) else nat i)"

definition well_formed ::
  "real list list \<Rightarrow> real list \<Rightarrow> real list \<Rightarrow> real list list option \<Rightarrow>
   real list list option \<Rightarrow> (int \<times> int) list option \<Rightarrow> bool" where
  "well_formed costs supply demand capacities route_minimums prohibited_routes =
     (covers costs (length supply) (length demand) \<and>
      (truthy capacities \<longrightarrow> covers (the capacities) (length supply) (length demand)) \<and>
      (truthy route_minimums \<longrightarrow> covers (the route_minimums) (length supply) (length demand)) \<and>
      (truthy prohibited_routes \<longrightarrow>
         list_all (\<lambda>(i, j). in_range (length supply) i \<and> in_range (length demand) j)
           (the prohibited_routes) \<and>
         distinct (the prohibited_routes)))"

section \<open>The rows of a built model in closed form\<close>

definition supply_rows :: "real list \<Rightarrow> real list \<Rightarrow> (cname \<times> lp_constraint) list" where
  "supply_rows supply demand =
     map (\<lambda>i. (Supply i,
               \<lparr>lhs = lpSum (map (\<lambda>j. var_term (LpVariable i j)) [0..<length demand]),
                sense = LpConstraintLE, rhs = supply ! i\<rparr>))
       [0..<length supply]"

definition demand_rows :: "real list \<Rightarrow> real list \<Rightarrow> (cname \<times> lp_constraint) list" where
  "demand_rows supply demand =
     map (\<lambda>j. (Demand j,
               \<lparr>lhs = lpSum (map (\<lambda>i. var_term (LpVariable i j)) [0..<length supply]),
                sense = LpConstraintGE, rhs = demand ! j\<rparr>))
       [0..<length demand]"

definition capacity_rows ::
  "nat \<Rightarrow> nat \<Rightarrow> real list list option \<Rightarrow> (cname \<times> lp_constraint) list" where
  "capacity_rows m n capacities =
     (if truthy capacities then
        map (\<lambda>(i, j). (Capacity i j,
                       \<lparr>lhs = var_term (LpVariable i j), sense = LpConstraintLE,
                        rhs = the capacities ! i ! j\<rparr>))
          (routes m n)
      else [])"

definition minimum_rows ::
  "nat \<Rightarrow> nat \<Rightarrow> real list list option \<Rightarrow> (cname \<times> lp_constraint) list" where
  "minimum_rows m n route_minimums =
     (if truthy route_minimums then
        map (\<lambda>(i, j). (RouteMin i j,
                       \<lparr>lhs = var_term (LpVariable i j), sense = LpConstraintGE,
                        rhs = the route_minimums ! i ! j\<rparr>))
          (routes m n)
      else [])"

definition prohibited_rows ::
  "nat \<Rightarrow> nat \<Rightarrow> (int \<times> int) list option \<Rightarrow> (cname \<times> lp_constraint) list" where
  "prohibited_rows m n prohibited_routes =
     (if truthy prohibited_routes then
        map (\<lambda>(i, j). (Prohibited i j,
                       \<lparr>lhs = var_term (LpVariable (position m i) (position n j)),
                        sense = LpConstraintEQ, rhs = 0\<rparr>))
          (the prohibited_routes)
      else [])"

definition cost_terms :: "real list list \<Rightarrow> nat \<Rightarrow> nat \<Rightarrow> affine" where
  "cost_terms costs m n =
     lpSum (map (\<lambda>(i, j). times (costs ! i ! j) (LpVariable i j)) (routes m n))"

definition closed_model ::
  "real list list \<Rightarrow> real list \<Rightarrow> real list \<Rightarrow> real list list option \<Rightarrow>
   real list list option \<Rightarrow> (int \<times> int) list option \<Rightarrow> lp_problem" where
  "closed_model costs supply demand capacities route_minimums prohibited_routes =
     \<lparr>problem_sense = LpMinimize, objective = cost_terms costs (length supply) (length demand),
      constraints =
        supply_rows supply demand @ demand_rows supply demand @
        capacity_rows (length supply) (length demand) capacities @
        minimum_rows (length supply) (length demand) route_minimums @
        prohibited_rows (length supply) (length demand) prohibited_routes\<rparr>"

section \<open>A stand-in solver for the examples\<close>

text \<open>Answers every problem with the given status and the given values.\<close>

definition fixed_answer ::
  "lp_status \<Rightarrow> (nat \<times> nat \<Rightarrow> real option) \<Rightarrow> lp_problem \<Rightarrow> solver_outcome" where
  "fixed_answer st vals prob = \<lparr>status_code = st, varValue = vals\<rparr>"

text \<open>Values it may leave in the variables: none at all, or the same number everywhere.\<close>

definition no_values :: "nat \<times> nat \<Rightarrow> real option" where
  "no_values k = None"

definition same_value :: "real \<Rightarrow> nat \<times> nat \<Rightarrow> real option" where
  "same_value v k = Some v"

section \<open>The loops, stage by stage\<close>

lemma and_then_Inr_iff: "and_then r k = Inr b \<longleftrightarrow> (\<exists>a. r = Inr a \<and> k a = Inr b)"
  by (cases r) (simp_all add: and_then_def)

lemma and_then_Inr [simp]: "and_then (Inr a) k = k a"
  by (simp add: and_then_def)

lemma and_then_Inl [simp]: "and_then (Inl e) k = Inl e"
  by (simp add: and_then_def)

lemma addConstraint_Inr_iff:
  "addConstraint r p = Inr p' \<longleftrightarrow>
     fst r \<notin> fst ` set (constraints p) \<and> p' = p\<lparr>constraints := constraints p @ [r]\<rparr>"
  by (auto simp: addConstraint_def)

lemma for_each_rows:
  assumes body: "\<And>a p. a \<in> set as \<Longrightarrow> body a p = and_then (h a) (\<lambda>r. addConstraint r p)"
  shows "for_each as body p = Inr p' \<longleftrightarrow>
     (\<exists>rs. map h as = map Inr rs \<and> distinct (map fst rs) \<and>
           fst ` set rs \<inter> fst ` set (constraints p) = {} \<and>
           p' = p\<lparr>constraints := constraints p @ rs\<rparr>)"
  using body
proof (induction as arbitrary: p)
  case Nil
  show ?case by auto
next
  case (Cons a as)
  have IH: "\<And>q. for_each as body q = Inr p' \<longleftrightarrow>
     (\<exists>rs. map h as = map Inr rs \<and> distinct (map fst rs) \<and>
           fst ` set rs \<inter> fst ` set (constraints q) = {} \<and>
           p' = q\<lparr>constraints := constraints q @ rs\<rparr>)"
    using Cons.IH Cons.prems by simp
  have step: "for_each (a # as) body p = and_then (and_then (h a) (\<lambda>r. addConstraint r p)) (for_each as body)"
    using Cons.prems by simp
  show ?case
  proof (cases "h a")
    case (Inl e)
    then show ?thesis unfolding step by (auto simp: map_eq_Cons_conv)
  next
    case (Inr r)
    show ?thesis
    proof (cases "fst r \<in> fst ` set (constraints p)")
      case True
      have "for_each (a # as) body p = Inl PulpError"
        unfolding step using Inr True by (simp add: addConstraint_def)
      moreover have "\<not> (\<exists>rs. map h (a # as) = map Inr rs \<and> distinct (map fst rs) \<and>
           fst ` set rs \<inter> fst ` set (constraints p) = {} \<and>
           p' = p\<lparr>constraints := constraints p @ rs\<rparr>)"
      proof
        assume "\<exists>rs. map h (a # as) = map Inr rs \<and> distinct (map fst rs) \<and>
           fst ` set rs \<inter> fst ` set (constraints p) = {} \<and>
           p' = p\<lparr>constraints := constraints p @ rs\<rparr>"
        then obtain rs where rs: "map h (a # as) = map Inr rs"
           "fst ` set rs \<inter> fst ` set (constraints p) = {}" by blast
        from rs(1) Inr have "r \<in> set rs" by (auto simp: Cons_eq_map_conv)
        then have "fst r \<in> fst ` set rs" by simp
        with True rs(2) show False by blast
      qed
      ultimately show ?thesis by simp
    next
      case False
      let ?q = "p\<lparr>constraints := constraints p @ [r]\<rparr>"
      have "for_each (a # as) body p = for_each as body ?q"
        unfolding step using Inr False by (simp add: addConstraint_def)
      moreover have "(\<exists>rs. map h as = map Inr rs \<and> distinct (map fst rs) \<and>
           fst ` set rs \<inter> fst ` set (constraints ?q) = {} \<and>
           p' = ?q\<lparr>constraints := constraints ?q @ rs\<rparr>) \<longleftrightarrow>
          (\<exists>rs. map h (a # as) = map Inr rs \<and> distinct (map fst rs) \<and>
           fst ` set rs \<inter> fst ` set (constraints p) = {} \<and>
           p' = p\<lparr>constraints := constraints p @ rs\<rparr>)" (is "?L \<longleftrightarrow> ?R")
      proof
        assume ?L
        then obtain rs where rs: "map h as = map Inr rs" "distinct (map fst rs)"
           "fst ` set rs \<inter> fst ` set (constraints ?q) = {}"
           "p' = ?q\<lparr>constraints := constraints ?q @ rs\<rparr>" by blast
        have "map h (a # as) = map Inr (r # rs)" using rs(1) Inr by simp
        moreover have "distinct (map fst (r # rs))" using rs(2,3) by auto
        moreover have "fst ` set (r # rs) \<inter> fst ` set (constraints p) = {}"
          using rs(3) False by auto
        moreover have "p' = p\<lparr>constraints := constraints p @ (r # rs)\<rparr>" using rs(4) by simp
        ultimately show ?R by blast
      next
        assume ?R
        then obtain rs where rs: "map h (a # as) = map Inr rs" "distinct (map fst rs)"
           "fst ` set rs \<inter> fst ` set (constraints p) = {}"
           "p' = p\<lparr>constraints := constraints p @ rs\<rparr>" by blast
        from rs(1) Inr obtain rs' where rs': "rs = r # rs'" "map h as = map Inr rs'"
          by (auto simp: Cons_eq_map_conv)
        have "distinct (map fst rs')" using rs(2) rs' by simp
        moreover have "fst ` set rs' \<inter> fst ` set (constraints ?q) = {}"
          using rs(2,3) rs' by auto
        moreover have "p' = ?q\<lparr>constraints := constraints ?q @ rs'\<rparr>" using rs(4) rs' by simp
        ultimately show ?L using rs'(2) by blast
      qed
      ultimately show ?thesis using IH[of ?q] by simp
    qed
  qed
qed

lemma gather_Inr_iff: "gather f as = Inr bs \<longleftrightarrow> map f as = map Inr bs"
proof (induction as arbitrary: bs)
  case Nil
  show ?case by auto
next
  case (Cons a as)
  show ?case
  proof (cases "f a")
    case (Inl e)
    then show ?thesis by (auto simp: Cons_eq_map_conv)
  next
    case (Inr b)
    then show ?thesis using Cons.IH
      by (cases "gather f as") (auto simp: Cons_eq_map_conv)
  qed
qed


lemma map_Inr_rows:
  assumes "\<And>a. a \<in> set as \<Longrightarrow> h a = Inr (g a)"
  shows "map h as = map Inr rs \<longleftrightarrow> rs = map g as"
proof -
  have eq: "map h as = map Inr (map g as)" using assms by simp
  have "(map Inr (map g as) = map Inr rs) = (map g as = rs)"
    by (rule inj_map_eq_map) simp
  then show ?thesis unfolding eq by blast
qed

lemma map_Inr_fail:
  assumes "a \<in> set as" "h a = Inl e"
  shows "map h as \<noteq> map Inr rs"
proof
  assume "map h as = map Inr rs"
  then have "set (map h as) = set (map Inr rs)" by simp
  moreover have "h a \<in> set (map h as)" using assms(1) by simp
  ultimately show False using assms(2) by auto
qed

lemma set_routes [simp]: "set (routes m n) = {0..<m} \<times> {0..<n}"
  by (auto simp: routes_def)

lemma routes_Suc: "routes (Suc m) n = routes m n @ map (\<lambda>j. (m, j)) [0..<n]"
  by (simp add: routes_def)

lemma distinct_routes [simp]: "distinct (routes m n)"
proof (induction m)
  case 0
  show ?case by (simp add: routes_def)
next
  case (Suc m)
  have "distinct (map (\<lambda>j. (m, j)) [0..<n])"
    by (simp add: distinct_map inj_on_def)
  moreover have "set (routes m n) \<inter> set (map (\<lambda>j. (m, j)) [0..<n]) = {}"
    by auto
  ultimately show ?case using Suc.IH unfolding routes_Suc by simp
qed

lemma item2_covered:
  "i < length rows \<Longrightarrow> j < length (rows ! i) \<Longrightarrow> item2 rows i j = Inr (rows ! i ! j)"
  by (simp add: item2_def item_def)

lemma item2_missing:
  "\<not> (i < length rows \<and> j < length (rows ! i)) \<Longrightarrow> item2 rows i j = Inl IndexError"
  by (auto simp: item2_def item_def)

lemma py_index_eq:
  "py_index n i = (if in_range n i then Inr (position n i) else Inl IndexError)"
  by (auto simp: py_index_def in_range_def position_def)


lemma covers_iff:
  "covers rows m n \<longleftrightarrow> (\<forall>i<m. \<forall>j<n. i < length rows \<and> j < length (rows ! i))"
  by (auto simp: covers_def list_all_iff)

lemma gather_costs:
  "gather (\<lambda>(i, j). and_then (item2 costs i j) (\<lambda>c. Inr (times c (LpVariable i j))))
     (routes m n) = Inr ts \<longleftrightarrow>
   covers costs m n \<and> ts = map (\<lambda>(i, j). times (costs ! i ! j) (LpVariable i j)) (routes m n)"
  (is "gather ?f _ = _ \<longleftrightarrow> _")
proof (cases "covers costs m n")
  case True
  have "\<And>a. a \<in> set (routes m n) \<Longrightarrow>
      ?f a = Inr ((\<lambda>(i, j). times (costs ! i ! j) (LpVariable i j)) a)"
    using True by (auto simp: covers_iff item2_covered)
  from map_Inr_rows[of "routes m n" ?f, OF this] True show ?thesis
    by (simp add: gather_Inr_iff)
next
  case False
  then obtain i j where ij: "i < m" "j < n" "\<not> (i < length costs \<and> j < length (costs ! i))"
    by (auto simp: covers_iff)
  have "(i, j) \<in> set (routes m n)" using ij by simp
  moreover have "?f (i, j) = Inl IndexError" using ij(3) by (simp add: item2_missing)
  ultimately have "map ?f (routes m n) \<noteq> map Inr ts" by (rule map_Inr_fail)
  with False show ?thesis by (simp add: gather_Inr_iff)
qed

lemma for_each_total:
  assumes body: "\<And>a p. a \<in> set as \<Longrightarrow> body a p = and_then (h a) (\<lambda>r. addConstraint r p)"
    and rows: "\<And>a. a \<in> set as \<Longrightarrow> h a = Inr (g a)"
    and d: "distinct (map fst (map g as))"
    and n: "fst ` set (map g as) \<inter> fst ` set (constraints p) = {}"
  shows "for_each as body p = Inr p' \<longleftrightarrow> p' = p\<lparr>constraints := constraints p @ map g as\<rparr>"
proof -
  have one: "\<And>rs. map h as = map Inr rs \<longleftrightarrow> rs = map g as"
    by (rule map_Inr_rows) (rule rows)
  have "for_each as body p = Inr p' \<longleftrightarrow>
     (\<exists>rs. map h as = map Inr rs \<and> distinct (map fst rs) \<and>
           fst ` set rs \<inter> fst ` set (constraints p) = {} \<and>
           p' = p\<lparr>constraints := constraints p @ rs\<rparr>)"
    by (rule for_each_rows) (rule body)
  also have "\<dots> \<longleftrightarrow> (distinct (map fst (map g as)) \<and>
           fst ` set (map g as) \<inter> fst ` set (constraints p) = {} \<and>
           p' = p\<lparr>constraints := constraints p @ map g as\<rparr>)"
    unfolding one by blast
  finally show ?thesis using d n by blast
qed

lemma for_each_failing:
  assumes body: "\<And>a p. a \<in> set as \<Longrightarrow> body a p = and_then (h a) (\<lambda>r. addConstraint r p)"
    and a: "a \<in> set as" "h a = Inl e"
  shows "for_each as body p \<noteq> Inr p'"
proof
  assume "for_each as body p = Inr p'"
  then obtain rs where "map h as = map Inr rs"
    using for_each_rows[of as body h p p', OF body] by blast
  with map_Inr_fail[of a as h e rs, OF a] show False by blast
qed


lemma names_fresh:
  assumes "\<And>a. a \<in> set as \<Longrightarrow> fst (g a) \<notin> N"
  shows "fst ` set (map g as) \<inter> N = {}"
  using assms by auto

lemma and_then_assoc_add:
  "and_then (and_then r (\<lambda>v. Inr (f v))) (\<lambda>nc. addConstraint nc p) =
   and_then r (\<lambda>v. addConstraint (f v) p)"
  by (cases r) simp_all


lemma supply_loop:
  assumes "\<And>i. Supply i \<notin> fst ` set (constraints p)"
  shows "for_each [0..<length supply]
          (\<lambda>i. addConstraint
             (Supply i,
              \<lparr>lhs = lpSum (map (\<lambda>j. var_term (LpVariable i j)) [0..<length demand]),
               sense = LpConstraintLE, rhs = supply ! i\<rparr>)) p = Inr p' \<longleftrightarrow>
         p' = p\<lparr>constraints := constraints p @ supply_rows supply demand\<rparr>"
proof -
  let ?g = "\<lambda>i. (Supply i,
              \<lparr>lhs = lpSum (map (\<lambda>j. var_term (LpVariable i j)) [0..<length demand]),
               sense = LpConstraintLE, rhs = supply ! i\<rparr>)"
  have rows: "map ?g [0..<length supply] = supply_rows supply demand"
    by (simp add: supply_rows_def)
  have d: "distinct (map fst (map ?g [0..<length supply]))"
    by (simp add: distinct_map comp_def inj_on_def)
  have n: "fst ` set (map ?g [0..<length supply]) \<inter> fst ` set (constraints p) = {}"
    by (rule names_fresh) (simp add: assms)
  show ?thesis
    using for_each_total[of "[0..<length supply]" "\<lambda>i. addConstraint (?g i)"
        "\<lambda>i. Inr (?g i)" ?g p p', OF _ _ d n]
    unfolding rows by simp
qed

lemma demand_loop:
  assumes "\<And>j. Demand j \<notin> fst ` set (constraints p)"
  shows "for_each [0..<length demand]
          (\<lambda>j. addConstraint
             (Demand j,
              \<lparr>lhs = lpSum (map (\<lambda>i. var_term (LpVariable i j)) [0..<length supply]),
               sense = LpConstraintGE, rhs = demand ! j\<rparr>)) p = Inr p' \<longleftrightarrow>
         p' = p\<lparr>constraints := constraints p @ demand_rows supply demand\<rparr>"
proof -
  let ?g = "\<lambda>j. (Demand j,
              \<lparr>lhs = lpSum (map (\<lambda>i. var_term (LpVariable i j)) [0..<length supply]),
               sense = LpConstraintGE, rhs = demand ! j\<rparr>)"
  have rows: "map ?g [0..<length demand] = demand_rows supply demand"
    by (simp add: demand_rows_def)
  have d: "distinct (map fst (map ?g [0..<length demand]))"
    by (simp add: distinct_map comp_def inj_on_def)
  have n: "fst ` set (map ?g [0..<length demand]) \<inter> fst ` set (constraints p) = {}"
    by (rule names_fresh) (simp add: assms)
  show ?thesis
    using for_each_total[of "[0..<length demand]" "\<lambda>j. addConstraint (?g j)"
        "\<lambda>j. Inr (?g j)" ?g p p', OF _ _ d n]
    unfolding rows by simp
qed

lemma bound_loop:
  assumes fresh: "\<And>i j. mk i j \<notin> fst ` set (constraints p)"
    and inj: "\<And>i j i' j'. mk i j = mk i' j' \<Longrightarrow> i = i' \<and> j = j'"
  shows "for_each (routes m n)
           (\<lambda>(i, j) prob. and_then (item2 c i j)
              (\<lambda>v. addConstraint
                 (mk i j, \<lparr>lhs = var_term (LpVariable i j), sense = s, rhs = v\<rparr>) prob)) p
         = Inr p' \<longleftrightarrow>
         covers c m n \<and>
         p' = p\<lparr>constraints := constraints p @
                map (\<lambda>(i, j). (mk i j,
                       \<lparr>lhs = var_term (LpVariable i j), sense = s, rhs = c ! i ! j\<rparr>))
                  (routes m n)\<rparr>"
  (is "for_each _ ?body p = _ \<longleftrightarrow> _ \<and> p' = p\<lparr>constraints := constraints p @ map ?g _\<rparr>")
proof -
  let ?h = "\<lambda>(i, j). and_then (item2 c i j)
      (\<lambda>v. Inr (mk i j, \<lparr>lhs = var_term (LpVariable i j), sense = s, rhs = v\<rparr>))"
  have body: "\<And>a q. a \<in> set (routes m n) \<Longrightarrow>
      ?body a q = and_then (?h a) (\<lambda>r. addConstraint r q)"
    by (simp add: case_prod_unfold and_then_assoc_add)
  show ?thesis
  proof (cases "covers c m n")
    case True
    have rows: "\<And>a. a \<in> set (routes m n) \<Longrightarrow> ?h a = Inr (?g a)"
      using True by (auto simp: covers_iff item2_covered)
    have "inj (\<lambda>a. fst (?g a))"
      by (rule injI) (auto simp: case_prod_unfold prod_eq_iff dest: inj)
    then have d: "distinct (map fst (map ?g (routes m n)))"
      by (simp add: distinct_map comp_def inj_on_def)
    have n: "fst ` set (map ?g (routes m n)) \<inter> fst ` set (constraints p) = {}"
      by (rule names_fresh) (simp add: case_prod_unfold fresh)
    from for_each_total[of "routes m n" ?body ?h ?g p p', OF body rows d n] True
    show ?thesis by simp
  next
    case False
    then obtain i j where ij: "i < m" "j < n" "\<not> (i < length c \<and> j < length (c ! i))"
      by (auto simp: covers_iff)
    have "(i, j) \<in> set (routes m n)" using ij by simp
    moreover have "?h (i, j) = Inl IndexError" using ij(3) by (simp add: item2_missing)
    ultimately have "for_each (routes m n) ?body p \<noteq> Inr p'"
      using for_each_failing[of "routes m n" ?body ?h "(i, j)" IndexError p p', OF body] by blast
    with False show ?thesis by simp
  qed
qed

lemma prohibited_step:
  "and_then (py_index m i) (\<lambda>a. and_then (py_index n j) (\<lambda>b. k a b)) =
   (if in_range m i \<and> in_range n j then k (position m i) (position n j) else Inl IndexError)"
  by (simp add: py_index_eq)

lemma prohibited_loop:
  assumes fresh: "\<And>i j. Prohibited i j \<notin> fst ` set (constraints p)"
  shows "for_each ps
           (\<lambda>(i, j) prob. and_then (py_index m i)
              (\<lambda>a. and_then (py_index n j)
              (\<lambda>b. addConstraint
                 (Prohibited i j,
                  \<lparr>lhs = var_term (LpVariable a b), sense = LpConstraintEQ, rhs = 0\<rparr>) prob))) p
         = Inr p' \<longleftrightarrow>
         list_all (\<lambda>(i, j). in_range m i \<and> in_range n j) ps \<and> distinct ps \<and>
         p' = p\<lparr>constraints := constraints p @
                map (\<lambda>(i, j). (Prohibited i j,
                       \<lparr>lhs = var_term (LpVariable (position m i) (position n j)),
                        sense = LpConstraintEQ, rhs = 0\<rparr>)) ps\<rparr>"
  (is "for_each _ ?body p = _ \<longleftrightarrow> ?ok \<and> _ \<and> p' = p\<lparr>constraints := constraints p @ map ?g _\<rparr>")
proof -
  let ?h = "\<lambda>(i, j). and_then (py_index m i)
      (\<lambda>a. and_then (py_index n j)
      (\<lambda>b. Inr (Prohibited i j,
                  \<lparr>lhs = var_term (LpVariable a b), sense = LpConstraintEQ, rhs = 0\<rparr>)))"
  have body: "\<And>a q. a \<in> set ps \<Longrightarrow> ?body a q = and_then (?h a) (\<lambda>r. addConstraint r q)"
    unfolding case_prod_unfold prohibited_step by simp
  have fstg: "map fst (map ?g ps) = map (\<lambda>(i, j). Prohibited i j) ps"
    by (simp add: case_prod_unfold comp_def)
  have "inj_on (\<lambda>(i, j). Prohibited i j) (set ps)"
    by (rule inj_onI) (simp add: case_prod_unfold prod_eq_iff)
  then have dist: "distinct (map fst (map ?g ps)) \<longleftrightarrow> distinct ps"
    unfolding fstg distinct_map by simp
  show ?thesis
  proof (cases ?ok)
    case ok: True
    have rows: "\<And>a. a \<in> set ps \<Longrightarrow> ?h a = Inr (?g a)"
    proof -
      fix a assume "a \<in> set ps"
      with ok have "in_range m (fst a) \<and> in_range n (snd a)"
        by (simp add: list_all_iff case_prod_unfold)
      then show "?h a = Inr (?g a)"
        unfolding case_prod_unfold prohibited_step by simp
    qed
    have sub: "fst ` set (map ?g ps) \<inter> fst ` set (constraints p) = {}"
      by (rule names_fresh) (simp add: case_prod_unfold fresh)
    show ?thesis
    proof (cases "distinct ps")
      case True
      then have d: "distinct (map fst (map ?g ps))" using dist by simp
      from for_each_total[of ps ?body ?h ?g p p', OF body rows d sub] ok True
      show ?thesis by simp
    next
      case False
      have "for_each ps ?body p \<noteq> Inr p'"
      proof
        assume "for_each ps ?body p = Inr p'"
        then obtain rs where rs: "map ?h ps = map Inr rs" "distinct (map fst rs)"
          using for_each_rows[of ps ?body ?h p p', OF body] by blast
        from rs(1) have "rs = map ?g ps"
          using map_Inr_rows[of ps ?h ?g rs, OF rows] by simp
        with rs(2) dist False show False by simp
      qed
      with False show ?thesis by simp
    qed
  next
    case False
    then have "\<exists>a\<in>set ps. \<not> (in_range m (fst a) \<and> in_range n (snd a))"
      by (simp add: list_all_iff case_prod_unfold)
    then obtain a where a: "a \<in> set ps" "\<not> (in_range m (fst a) \<and> in_range n (snd a))"
      by blast
    have "?h a = Inl IndexError"
      unfolding case_prod_unfold prohibited_step using a(2) by simp
    with a(1) have "for_each ps ?body p \<noteq> Inr p'"
      using for_each_failing[of ps ?body ?h a IndexError p p', OF body] by blast
    with False show ?thesis by simp
  qed
qed

lemma capacity_stage:
  assumes fresh: "\<And>i j. Capacity i j \<notin> fst ` set (constraints p)"
  shows "(if truthy capacities then
          for_each (routes m n)
            (\<lambda>(i, j) prob. and_then (item2 (the capacities) i j)
               (\<lambda>c. addConstraint
                  (Capacity i j,
                   \<lparr>lhs = var_term (LpVariable i j), sense = LpConstraintLE, rhs = c\<rparr>) prob))
            p
        else Inr p) = Inr p' \<longleftrightarrow>
        (truthy capacities \<longrightarrow> covers (the capacities) m n) \<and>
        p' = p\<lparr>constraints := constraints p @ capacity_rows m n capacities\<rparr>"
proof (cases "truthy capacities")
  case True
  then show ?thesis
    using bound_loop[of Capacity p m n "the capacities" LpConstraintLE p', OF fresh]
    by (simp add: capacity_rows_def)
next
  case False
  then show ?thesis by (auto simp: capacity_rows_def)
qed

lemma minimum_stage:
  assumes fresh: "\<And>i j. RouteMin i j \<notin> fst ` set (constraints p)"
  shows "(if truthy route_minimums then
          for_each (routes m n)
            (\<lambda>(i, j) prob. and_then (item2 (the route_minimums) i j)
               (\<lambda>c. addConstraint
                  (RouteMin i j,
                   \<lparr>lhs = var_term (LpVariable i j), sense = LpConstraintGE, rhs = c\<rparr>) prob))
            p
        else Inr p) = Inr p' \<longleftrightarrow>
        (truthy route_minimums \<longrightarrow> covers (the route_minimums) m n) \<and>
        p' = p\<lparr>constraints := constraints p @ minimum_rows m n route_minimums\<rparr>"
proof (cases "truthy route_minimums")
  case True
  then show ?thesis
    using bound_loop[of RouteMin p m n "the route_minimums" LpConstraintGE p', OF fresh]
    by (simp add: minimum_rows_def)
next
  case False
  then show ?thesis by (auto simp: minimum_rows_def)
qed

lemma prohibited_stage:
  assumes fresh: "\<And>i j. Prohibited i j \<notin> fst ` set (constraints p)"
  shows "(if truthy prohibited_routes then
          for_each (the prohibited_routes)
            (\<lambda>(i, j) prob. and_then (py_index m i)
               (\<lambda>a. and_then (py_index n j)
               (\<lambda>b. addConstraint
                  (Prohibited i j,
                   \<lparr>lhs = var_term (LpVariable a b), sense = LpConstraintEQ, rhs = 0\<rparr>) prob)))
            p
        else Inr p) = Inr p' \<longleftrightarrow>
        (truthy prohibited_routes \<longrightarrow>
           list_all (\<lambda>(i, j). in_range m i \<and> in_range n j) (the prohibited_routes) \<and>
           distinct (the prohibited_routes)) \<and>
        p' = p\<lparr>constraints := constraints p @ prohibited_rows m n prohibited_routes\<rparr>"
proof (cases "truthy prohibited_routes")
  case True
  then show ?thesis
    using prohibited_loop[of p "the prohibited_routes" m n p', OF fresh]
    by (simp add: prohibited_rows_def)
next
  case False
  then show ?thesis by (auto simp: prohibited_rows_def)
qed

lemma names_supply_rows: "x \<in> fst ` set (supply_rows s d) \<Longrightarrow> \<exists>i. x = Supply i"
  by (auto simp: supply_rows_def)

lemma names_demand_rows: "x \<in> fst ` set (demand_rows s d) \<Longrightarrow> \<exists>j. x = Demand j"
  by (auto simp: demand_rows_def)

lemma names_capacity_rows: "x \<in> fst ` set (capacity_rows m n c) \<Longrightarrow> \<exists>i j. x = Capacity i j"
  by (auto simp: capacity_rows_def split: if_splits)

lemma names_minimum_rows: "x \<in> fst ` set (minimum_rows m n c) \<Longrightarrow> \<exists>i j. x = RouteMin i j"
  by (auto simp: minimum_rows_def split: if_splits)

lemma names_prohibited_rows:
  "x \<in> fst ` set (prohibited_rows m n c) \<Longrightarrow> \<exists>i j. x = Prohibited i j"
  by (auto simp: prohibited_rows_def split: if_splits)

lemma build_model_succeeds:
  assumes wf: "well_formed costs supply demand capacities route_minimums prohibited_routes"
  shows "build_model costs supply demand capacities route_minimums prohibited_routes =
         Inr (closed_model costs supply demand capacities route_minimums prohibited_routes)"
proof -
  let ?m = "length supply" and ?n = "length demand"
  let ?S = "supply_rows supply demand" and ?D = "demand_rows supply demand"
  let ?C = "capacity_rows ?m ?n capacities" and ?M = "minimum_rows ?m ?n route_minimums"
  let ?P = "prohibited_rows ?m ?n prohibited_routes"
  let ?ts = "map (\<lambda>(i, j). times (costs ! i ! j) (LpVariable i j)) (routes ?m ?n)"
  let ?p0 = "\<lparr>problem_sense = LpMinimize, objective = lpSum ?ts, constraints = []\<rparr>"
  let ?p1 = "\<lparr>problem_sense = LpMinimize, objective = lpSum ?ts, constraints = ?S\<rparr>"
  let ?p2 = "\<lparr>problem_sense = LpMinimize, objective = lpSum ?ts, constraints = ?S @ ?D\<rparr>"
  let ?p3 = "\<lparr>problem_sense = LpMinimize, objective = lpSum ?ts, constraints = ?S @ ?D @ ?C\<rparr>"
  let ?p4 = "\<lparr>problem_sense = LpMinimize, objective = lpSum ?ts, constraints = ?S @ ?D @ ?C @ ?M\<rparr>"
  let ?p5 = "\<lparr>problem_sense = LpMinimize, objective = lpSum ?ts, constraints = ?S @ ?D @ ?C @ ?M @ ?P\<rparr>"
  have g: "gather (\<lambda>(i, j). and_then (item2 costs i j) (\<lambda>c. Inr (times c (LpVariable i j))))
     (routes ?m ?n) = Inr ?ts"
    using wf by (simp add: gather_costs well_formed_def)
  have s1: "for_each [0..<?m]
          (\<lambda>i. addConstraint
             (Supply i,
              \<lparr>lhs = lpSum (map (\<lambda>j. var_term (LpVariable i j)) [0..<?n]),
               sense = LpConstraintLE, rhs = supply ! i\<rparr>)) ?p0 = Inr ?p1"
    by (subst supply_loop) simp_all
  have f2: "\<And>j. Demand j \<notin> fst ` set (constraints ?p1)"
    using names_supply_rows by fastforce
  have s2: "for_each [0..<?n]
          (\<lambda>j. addConstraint
             (Demand j,
              \<lparr>lhs = lpSum (map (\<lambda>i. var_term (LpVariable i j)) [0..<?m]),
               sense = LpConstraintGE, rhs = demand ! j\<rparr>)) ?p1 = Inr ?p2"
    by (subst demand_loop[OF f2]) simp
  have f3: "\<And>i j. Capacity i j \<notin> fst ` set (constraints ?p2)"
    using names_supply_rows names_demand_rows by (fastforce simp: image_Un)
  have s3: "(if truthy capacities then
          for_each (routes ?m ?n)
            (\<lambda>(i, j) prob. and_then (item2 (the capacities) i j)
               (\<lambda>c. addConstraint
                  (Capacity i j,
                   \<lparr>lhs = var_term (LpVariable i j), sense = LpConstraintLE, rhs = c\<rparr>) prob))
            ?p2
        else Inr ?p2) = Inr ?p3"
    using wf by (subst capacity_stage[OF f3]) (simp add: well_formed_def)
  have f4: "\<And>i j. RouteMin i j \<notin> fst ` set (constraints ?p3)"
    using names_supply_rows names_demand_rows names_capacity_rows
    by (fastforce simp: image_Un)
  have s4: "(if truthy route_minimums then
          for_each (routes ?m ?n)
            (\<lambda>(i, j) prob. and_then (item2 (the route_minimums) i j)
               (\<lambda>c. addConstraint
                  (RouteMin i j,
                   \<lparr>lhs = var_term (LpVariable i j), sense = LpConstraintGE, rhs = c\<rparr>) prob))
            ?p3
        else Inr ?p3) = Inr ?p4"
    using wf by (subst minimum_stage[OF f4]) (simp add: well_formed_def)
  have f5: "\<And>i j. Prohibited i j \<notin> fst ` set (constraints ?p4)"
    using names_supply_rows names_demand_rows names_capacity_rows names_minimum_rows
    by (fastforce simp: image_Un)
  have s5: "(if truthy prohibited_routes then
          for_each (the prohibited_routes)
            (\<lambda>(i, j) prob. and_then (py_index ?m i)
               (\<lambda>a. and_then (py_index ?n j)
               (\<lambda>b. addConstraint
                  (Prohibited i j,
                   \<lparr>lhs = var_term (LpVariable a b), sense = LpConstraintEQ, rhs = 0\<rparr>) prob)))
            ?p4
        else Inr ?p4) = Inr ?p5"
    using wf by (subst prohibited_stage[OF f5]) (simp add: well_formed_def)
  have "build_model costs supply demand capacities route_minimums prohibited_routes = Inr ?p5"
    by (simp only: build_model_def Let_def g and_then_Inr s1 s2 s3 s4 s5)
  then show ?thesis by (simp add: closed_model_def cost_terms_def)
qed

lemma build_model_shape:
  assumes eq: "build_model costs supply demand capacities route_minimums prohibited_routes = Inr prob"
  shows "well_formed costs supply demand capacities route_minimums prohibited_routes \<and>
         prob = closed_model costs supply demand capacities route_minimums prohibited_routes"
  using eq unfolding build_model_def Let_def and_then_Inr_iff
  apply (elim exE conjE)
  subgoal premises prems for ts p1 p2 p3 p4
  proof -
    let ?m = "length supply" and ?n = "length demand"
    let ?S = "supply_rows supply demand" and ?D = "demand_rows supply demand"
    let ?C = "capacity_rows ?m ?n capacities" and ?M = "minimum_rows ?m ?n route_minimums"
    let ?P = "prohibited_rows ?m ?n prohibited_routes"
    let ?obj = "cost_terms costs ?m ?n"
    have g: "covers costs ?m ?n" and ts: "lpSum ts = ?obj"
      using prems(1) unfolding gather_costs by (simp_all add: cost_terms_def)
    have p1: "p1 = \<lparr>problem_sense = LpMinimize, objective = ?obj, constraints = ?S\<rparr>"
      using prems(2) unfolding ts by (subst (asm) supply_loop) simp_all
    have f2: "\<And>j. Demand j \<notin> fst ` set (constraints p1)"
      unfolding p1 using names_supply_rows by fastforce
    have p2: "p2 = \<lparr>problem_sense = LpMinimize, objective = ?obj, constraints = ?S @ ?D\<rparr>"
      using prems(3) unfolding demand_loop[OF f2] by (simp add: p1)
    have f3: "\<And>i j. Capacity i j \<notin> fst ` set (constraints p2)"
      unfolding p2 using names_supply_rows names_demand_rows by (fastforce simp: image_Un)
    have c3: "truthy capacities \<longrightarrow> covers (the capacities) ?m ?n"
      and p3: "p3 = \<lparr>problem_sense = LpMinimize, objective = ?obj, constraints = ?S @ ?D @ ?C\<rparr>"
      using prems(4) unfolding capacity_stage[OF f3] by (simp_all add: p2)
    have f4: "\<And>i j. RouteMin i j \<notin> fst ` set (constraints p3)"
      unfolding p3 using names_supply_rows names_demand_rows names_capacity_rows
      by (fastforce simp: image_Un)
    have c4: "truthy route_minimums \<longrightarrow> covers (the route_minimums) ?m ?n"
      and p4: "p4 = \<lparr>problem_sense = LpMinimize, objective = ?obj, constraints = ?S @ ?D @ ?C @ ?M\<rparr>"
      using prems(5) unfolding minimum_stage[OF f4] by (simp_all add: p3)
    have f5: "\<And>i j. Prohibited i j \<notin> fst ` set (constraints p4)"
      unfolding p4
      using names_supply_rows names_demand_rows names_capacity_rows names_minimum_rows
      by (fastforce simp: image_Un)
    have c5: "truthy prohibited_routes \<longrightarrow>
           list_all (\<lambda>(i, j). in_range ?m i \<and> in_range ?n j) (the prohibited_routes) \<and>
           distinct (the prohibited_routes)"
      and p5: "prob = \<lparr>problem_sense = LpMinimize, objective = ?obj, constraints = ?S @ ?D @ ?C @ ?M @ ?P\<rparr>"
      using prems(6) unfolding prohibited_stage[OF f5] by (simp_all add: p4)
    show ?thesis
      using g c3 c4 c5 p5 by (simp add: well_formed_def closed_model_def)
  qed
  done

lemma affine_value_Some_iff:
  "affine_value vals ts = Some s \<longleftrightarrow>
     (\<forall>t\<in>set ts. vals (var_name (fst t)) \<noteq> None) \<and>
     s = sum_list (map (\<lambda>t. the (vals (var_name (fst t))) * snd t) ts)"
proof (induction ts arbitrary: s)
  case Nil
  show ?case by auto
next
  case (Cons t ts)
  obtain v c where t: "t = (v, c)" by (cases t)
  show ?case
  proof (cases "vals (var_name v)")
    case None
    then show ?thesis by (simp add: t)
  next
    case (Some a)
    show ?thesis
    proof (cases "affine_value vals ts")
      case None
      have "\<not> (\<forall>t\<in>set ts. vals (var_name (fst t)) \<noteq> None)"
      proof
        assume "\<forall>t\<in>set ts. vals (var_name (fst t)) \<noteq> None"
        then have "affine_value vals ts =
            Some (sum_list (map (\<lambda>t. the (vals (var_name (fst t))) * snd t) ts))"
          using Cons.IH by simp
        with None show False by simp
      qed
      with None Some show ?thesis by (simp add: t)
    next
      case (Some r)
      with Cons.IH[of r] have "\<forall>t\<in>set ts. vals (var_name (fst t)) \<noteq> None"
        and "r = sum_list (map (\<lambda>t. the (vals (var_name (fst t))) * snd t) ts)" by simp_all
      with Some \<open>vals (var_name v) = Some a\<close> show ?thesis by (auto simp: t)
    qed
  qed
qed

lemma sum_list_concat_rows:
  "sum_list (concat xss) = sum_list (map sum_list (xss :: real list list))"
  by (induction xss) simp_all

lemma sum_list_routes:
  "sum_list (map f (routes m n)) = (\<Sum>i<m. \<Sum>j<n. (f (i, j) :: real))"
proof -
  have inner: "\<And>i. sum_list (map f (map (\<lambda>j. (i, j)) [0..<n])) = (\<Sum>j<n. f (i, j))"
    by (simp add: comp_def interv_sum_list_conv_sum_set_nat lessThan_atLeast0)
  have "sum_list (map f (routes m n)) =
        sum_list (map (\<lambda>i. sum_list (map f (map (\<lambda>j. (i, j)) [0..<n]))) [0..<m])"
    by (simp add: routes_def map_concat sum_list_concat_rows comp_def)
  also have "\<dots> = (\<Sum>i<m. \<Sum>j<n. f (i, j))"
    unfolding inner by (simp add: interv_sum_list_conv_sum_set_nat lessThan_atLeast0)
  finally show ?thesis .
qed

lemma row_sum:
  "sum_list (map (\<lambda>t. the (vals (var_name (fst t))) * snd t)
     (lpSum (map (\<lambda>j. var_term (LpVariable (a j) (b j))) [0..<n]))) =
   (\<Sum>j<n. the (vals (a j, b j)))"
  by (simp add: lpSum_def var_term_def LpVariable_def map_concat sum_list_concat_rows comp_def
      interv_sum_list_conv_sum_set_nat lessThan_atLeast0)

lemma cost_sum:
  "sum_list (map (\<lambda>t. the (vals (var_name (fst t))) * snd t) (cost_terms costs m n)) =
   (\<Sum>i<m. \<Sum>j<n. costs ! i ! j * the (vals (i, j)))"
proof -
  have one: "\<And>r. sum_list (map (\<lambda>t. the (vals (var_name (fst t))) * snd t)
       ((\<lambda>(i, j). times (costs ! i ! j) (LpVariable i j)) r)) =
       (\<lambda>(i, j). costs ! i ! j * the (vals (i, j))) r"
    by (simp add: case_prod_unfold times_def LpVariable_def)
  have "sum_list (map (\<lambda>t. the (vals (var_name (fst t))) * snd t) (cost_terms costs m n)) =
        sum_list (map (\<lambda>r. sum_list (map (\<lambda>t. the (vals (var_name (fst t))) * snd t)
          ((\<lambda>(i, j). times (costs ! i ! j) (LpVariable i j)) r))) (routes m n))"
    by (simp add: cost_terms_def lpSum_def map_concat sum_list_concat_rows comp_def)
  also have "\<dots> = sum_list (map (\<lambda>(i, j). costs ! i ! j * the (vals (i, j))) (routes m n))"
    unfolding one ..
  also have "\<dots> = (\<Sum>i<m. \<Sum>j<n. costs ! i ! j * the (vals (i, j)))"
    by (simp add: sum_list_routes)
  finally show ?thesis .
qed

lemma cost_terms_vars:
  "t \<in> set (cost_terms costs m n) \<Longrightarrow> var_name (fst t) \<in> set (routes m n)"
  by (auto simp: cost_terms_def lpSum_def times_def LpVariable_def split: if_splits)

lemma feasible_constraint:
  "feasible prob vals \<Longrightarrow> (nm, c) \<in> set (constraints prob) \<Longrightarrow> constraint_holds vals c"
  by (auto simp: feasible_def list_all_iff)

lemma feasible_bounds:
  "feasible prob vals \<Longrightarrow> (nm, c) \<in> set (constraints prob) \<Longrightarrow> t \<in> set (lhs c) \<Longrightarrow>
   within_bounds vals (fst t)"
  by (fastforce simp: feasible_def list_all_iff problem_variables_def)

lemma within_bounds_LpVariable:
  "within_bounds vals (LpVariable i j) \<longleftrightarrow> (\<exists>x. vals (i, j) = Some x \<and> 0 \<le> x)"
  by (auto simp: within_bounds_def LpVariable_def split: option.splits)

lemma distinct_names_append:
  assumes "distinct (map fst xs)" "distinct (map fst ys)"
    and "\<And>x. x \<in> fst ` set xs \<Longrightarrow> x \<in> fst ` set ys \<Longrightarrow> False"
  shows "distinct (map fst (xs @ ys))"
  using assms by auto

lemma distinct_supply_rows: "distinct (map fst (supply_rows s d))"
  by (simp add: supply_rows_def distinct_map comp_def inj_on_def)

lemma distinct_demand_rows: "distinct (map fst (demand_rows s d))"
  by (simp add: demand_rows_def distinct_map comp_def inj_on_def)

lemma distinct_capacity_rows: "distinct (map fst (capacity_rows m n c))"
proof -
  have "inj_on (\<lambda>x. Capacity (fst x) (snd x)) (set (routes m n))"
    by (rule inj_onI) (simp add: prod_eq_iff)
  moreover have "map fst (capacity_rows m n c) =
      (if truthy c then map (\<lambda>x. Capacity (fst x) (snd x)) (routes m n) else [])"
    by (simp add: capacity_rows_def case_prod_unfold comp_def)
  ultimately show ?thesis by (simp add: distinct_map)
qed

lemma distinct_minimum_rows: "distinct (map fst (minimum_rows m n c))"
proof -
  have "inj_on (\<lambda>x. RouteMin (fst x) (snd x)) (set (routes m n))"
    by (rule inj_onI) (simp add: prod_eq_iff)
  moreover have "map fst (minimum_rows m n c) =
      (if truthy c then map (\<lambda>x. RouteMin (fst x) (snd x)) (routes m n) else [])"
    by (simp add: minimum_rows_def case_prod_unfold comp_def)
  ultimately show ?thesis by (simp add: distinct_map)
qed

lemma distinct_prohibited_rows:
  assumes "truthy ps \<longrightarrow> distinct (the ps)"
  shows "distinct (map fst (prohibited_rows m n ps))"
proof -
  have "inj_on (\<lambda>x. Prohibited (fst x) (snd x)) (set (the ps))"
    by (rule inj_onI) (simp add: prod_eq_iff)
  moreover have "map fst (prohibited_rows m n ps) =
      (if truthy ps then map (\<lambda>x. Prohibited (fst x) (snd x)) (the ps) else [])"
    by (simp add: prohibited_rows_def case_prod_unfold comp_def)
  ultimately show ?thesis using assms by (simp add: distinct_map)
qed

lemma distinct_names_closed_model:
  assumes wf: "well_formed costs supply demand capacities route_minimums prohibited_routes"
  shows "distinct (map fst (constraints
           (closed_model costs supply demand capacities route_minimums prohibited_routes)))"
proof -
  let ?m = "length supply" and ?n = "length demand"
  let ?S = "supply_rows supply demand" and ?D = "demand_rows supply demand"
  let ?C = "capacity_rows ?m ?n capacities" and ?M = "minimum_rows ?m ?n route_minimums"
  let ?P = "prohibited_rows ?m ?n prohibited_routes"
  have dP: "distinct (map fst ?P)"
    using wf by (intro distinct_prohibited_rows) (simp add: well_formed_def)
  have 1: "distinct (map fst (?M @ ?P))"
    using distinct_minimum_rows dP
  proof (rule distinct_names_append)
    fix x assume "x \<in> fst ` set ?M" "x \<in> fst ` set ?P"
    then show False using names_minimum_rows names_prohibited_rows by fastforce
  qed
  have 2: "distinct (map fst (?C @ ?M @ ?P))"
    using distinct_capacity_rows 1
  proof (rule distinct_names_append)
    fix x assume "x \<in> fst ` set ?C" "x \<in> fst ` set (?M @ ?P)"
    then show False
      using names_capacity_rows names_minimum_rows names_prohibited_rows
      by (fastforce simp: image_Un)
  qed
  have 3: "distinct (map fst (?D @ ?C @ ?M @ ?P))"
    using distinct_demand_rows 2
  proof (rule distinct_names_append)
    fix x assume "x \<in> fst ` set ?D" "x \<in> fst ` set (?C @ ?M @ ?P)"
    then show False
      using names_demand_rows names_capacity_rows names_minimum_rows names_prohibited_rows
      by (fastforce simp: image_Un)
  qed
  have 4: "distinct (map fst (?S @ ?D @ ?C @ ?M @ ?P))"
    using distinct_supply_rows 3
  proof (rule distinct_names_append)
    fix x assume "x \<in> fst ` set ?S" "x \<in> fst ` set (?D @ ?C @ ?M @ ?P)"
    then show False
      using names_supply_rows names_demand_rows names_capacity_rows names_minimum_rows
        names_prohibited_rows
      by (fastforce simp: image_Un)
  qed
  then show ?thesis by (simp add: closed_model_def)
qed

lemma built_lookup:
  assumes eq: "build_model costs supply demand capacities route_minimums prohibited_routes = Inr prob"
    and mem: "(nm, c) \<in> set (constraints prob)"
  shows "map_of (constraints prob) nm = Some c"
proof -
  from build_model_shape[OF eq] distinct_names_closed_model
  have "distinct (map fst (constraints prob))" by blast
  with mem show ?thesis by simp
qed

lemma supply_row_mem:
  "i < length supply \<Longrightarrow>
   (Supply i,
    \<lparr>lhs = lpSum (map (\<lambda>j. var_term (LpVariable i j)) [0..<length demand]),
     sense = LpConstraintLE, rhs = supply ! i\<rparr>)
   \<in> set (constraints (closed_model costs supply demand capacities route_minimums prohibited_routes))"
  by (simp add: closed_model_def supply_rows_def image_iff)

lemma demand_row_mem:
  "j < length demand \<Longrightarrow>
   (Demand j,
    \<lparr>lhs = lpSum (map (\<lambda>i. var_term (LpVariable i j)) [0..<length supply]),
     sense = LpConstraintGE, rhs = demand ! j\<rparr>)
   \<in> set (constraints (closed_model costs supply demand capacities route_minimums prohibited_routes))"
  by (simp add: closed_model_def demand_rows_def image_iff)

lemma capacity_row_mem:
  "truthy capacities \<Longrightarrow> i < length supply \<Longrightarrow> j < length demand \<Longrightarrow>
   (Capacity i j,
    \<lparr>lhs = var_term (LpVariable i j), sense = LpConstraintLE, rhs = the capacities ! i ! j\<rparr>)
   \<in> set (constraints (closed_model costs supply demand capacities route_minimums prohibited_routes))"
  by (simp add: closed_model_def capacity_rows_def image_iff)

lemma minimum_row_mem:
  "truthy route_minimums \<Longrightarrow> i < length supply \<Longrightarrow> j < length demand \<Longrightarrow>
   (RouteMin i j,
    \<lparr>lhs = var_term (LpVariable i j), sense = LpConstraintGE, rhs = the route_minimums ! i ! j\<rparr>)
   \<in> set (constraints (closed_model costs supply demand capacities route_minimums prohibited_routes))"
  by (simp add: closed_model_def minimum_rows_def image_iff)


lemma row_value:
  "affine_value (\<lambda>k. Some (x k)) (lpSum (map (\<lambda>j. var_term (LpVariable (a j) (b j))) [0..<n])) =
   Some (\<Sum>j<n. x (a j, b j))"
  using row_sum[of "\<lambda>k. Some (x k)" a b n] by (simp add: affine_value_Some_iff)

lemma single_var_holds:
  "constraint_holds vals \<lparr>lhs = var_term (LpVariable i j), sense = s, rhs = r\<rparr> \<longleftrightarrow>
   (\<exists>x. vals (i, j) = Some x \<and>
        (case s of LpConstraintLE \<Rightarrow> x \<le> r | LpConstraintGE \<Rightarrow> r \<le> x
         | LpConstraintEQ \<Rightarrow> x = r))"
  by (cases "vals (i, j)"; cases s)
     (simp_all add: constraint_holds_def var_term_def LpVariable_def)

lemma feasible_single_var:
  assumes "feasible prob vals"
    and "(nm, \<lparr>lhs = var_term (LpVariable i j), sense = s, rhs = r\<rparr>) \<in> set (constraints prob)"
  shows "\<exists>x. vals (i, j) = Some x \<and> 0 \<le> x \<and>
        (case s of LpConstraintLE \<Rightarrow> x \<le> r | LpConstraintGE \<Rightarrow> r \<le> x
         | LpConstraintEQ \<Rightarrow> x = r)"
proof -
  let ?c = "\<lparr>lhs = var_term (LpVariable i j), sense = s, rhs = r\<rparr>"
  have "(LpVariable i j, 1) \<in> set (lhs ?c)" by (simp add: var_term_def)
  from feasible_bounds[OF assms this] have "within_bounds vals (LpVariable i j)" by simp
  then obtain x where x: "vals (i, j) = Some x" "0 \<le> x"
    unfolding within_bounds_LpVariable by blast
  from feasible_constraint[OF assms] have "constraint_holds vals ?c" .
  with x show ?thesis unfolding single_var_holds by simp
qed

lemma truthy_Some: "truthy (Some xs) \<longleftrightarrow> xs \<noteq> []"
  by (simp add: truthy_def)

lemma solve_transportation_built:
  assumes "build_model costs supply demand capacities route_minimums prohibited_routes = Inr prob"
  shows "solve_transportation solver costs supply demand capacities route_minimums
           prohibited_routes =
         Inr \<lparr>status = LpStatus (status_code (solver prob)),
              total_cost = value_after_solve (varValue (solver prob)) (objective prob),
              variables = map (\<lambda>(i, j). ((i, j), varValue (solver prob) (i, j)))
                            (routes (length supply) (length demand))\<rparr>"
  using assms by (simp add: solve_transportation_def Let_def)

lemma variables_lookup:
  assumes "i < m" "j < n"
  shows "map_of (map (\<lambda>(i, j). ((i, j), f (i, j))) (routes m n)) (i, j) = Some (f (i, j))"
proof -
  have eq: "map (\<lambda>(i, j). ((i, j), f (i, j))) (routes m n) = map (\<lambda>k. (k, f k)) (routes m n)"
    by (simp add: case_prod_unfold)
  show ?thesis unfolding eq using assms by (simp add: map_of_map_restrict)
qed

lemma LpStatus_Optimal: "LpStatus c = ''Optimal'' \<longleftrightarrow> c = LpStatusOptimal"
  by (cases c) simp_all

lemma LpStatus_Infeasible: "LpStatus c = ''Infeasible'' \<longleftrightarrow> c = LpStatusInfeasible"
  by (cases c) simp_all

lemma feasible_route_value:
  assumes eq: "build_model costs supply demand capacities route_minimums prohibited_routes = Inr prob"
    and feas: "feasible prob vals"
    and i: "i < length supply" and j: "j < length demand"
  shows "\<exists>x. vals (i, j) = Some x \<and> 0 \<le> x"
proof -
  let ?c = "\<lparr>lhs = lpSum (map (\<lambda>j. var_term (LpVariable i j)) [0..<length demand]),
             sense = LpConstraintLE, rhs = supply ! i\<rparr>"
  have prob: "prob = closed_model costs supply demand capacities route_minimums prohibited_routes"
    using build_model_shape[OF eq] by simp
  have row: "(Supply i, ?c) \<in> set (constraints prob)"
    unfolding prob using i by (rule supply_row_mem)
  have "(LpVariable i j, 1) \<in> set (lhs ?c)"
    using j by (force simp: lpSum_def var_term_def)
  from feasible_bounds[OF feas row this]
  have "within_bounds vals (LpVariable i j)" by simp
  then show ?thesis unfolding within_bounds_LpVariable .
qed

lemma objective_value:
  assumes "\<And>i j. i < m \<Longrightarrow> j < n \<Longrightarrow> vals (i, j) \<noteq> None"
  shows "affine_value vals (cost_terms costs m n) =
         Some (\<Sum>i<m. \<Sum>j<n. costs ! i ! j * the (vals (i, j)))"
proof -
  have "\<forall>t\<in>set (cost_terms costs m n). vals (var_name (fst t)) \<noteq> None"
  proof
    fix t assume "t \<in> set (cost_terms costs m n)"
    then have "var_name (fst t) \<in> set (routes m n)" by (rule cost_terms_vars)
    then obtain i j where "var_name (fst t) = (i, j)" "i < m" "j < n" by auto
    with assms show "vals (var_name (fst t)) \<noteq> None" by simp
  qed
  then show ?thesis by (simp add: affine_value_Some_iff cost_sum)
qed

lemma holds_LE:
  "constraint_holds vals \<lparr>lhs = e, sense = LpConstraintLE, rhs = r\<rparr> \<Longrightarrow>
   sum_list (map (\<lambda>t. the (vals (var_name (fst t))) * snd t) e) \<le> r"
  by (auto simp: constraint_holds_def affine_value_Some_iff split: option.splits)

lemma holds_GE:
  "constraint_holds vals \<lparr>lhs = e, sense = LpConstraintGE, rhs = r\<rparr> \<Longrightarrow>
   r \<le> sum_list (map (\<lambda>t. the (vals (var_name (fst t))) * snd t) e)"
  by (auto simp: constraint_holds_def affine_value_Some_iff split: option.splits)

lemma sum_list_nth_lessThan: "sum_list xs = (\<Sum>i<length xs. (xs ! i :: real))"
  by (simp add: sum_list_sum_nth lessThan_atLeast0)

lemma demand_exceeds_supply_infeasible:
  assumes eq: "build_model costs supply demand capacities route_minimums prohibited_routes = Inr prob"
    and gap: "sum_list supply < sum_list demand"
  shows "\<not> feasible prob vals"
proof
  assume feas: "feasible prob vals"
  let ?m = "length supply" and ?n = "length demand"
  let ?x = "\<lambda>i j. the (vals (i, j))"
  have prob: "prob = closed_model costs supply demand capacities route_minimums prohibited_routes"
    using build_model_shape[OF eq] by simp
  have out: "\<And>i. i < ?m \<Longrightarrow> (\<Sum>j<?n. ?x i j) \<le> supply ! i"
  proof -
    fix i assume i: "i < ?m"
    have "(Supply i, \<lparr>lhs = lpSum (map (\<lambda>j. var_term (LpVariable i j)) [0..<?n]),
             sense = LpConstraintLE, rhs = supply ! i\<rparr>) \<in> set (constraints prob)"
      unfolding prob using i by (rule supply_row_mem)
    from holds_LE[OF feasible_constraint[OF feas this]]
    show "(\<Sum>j<?n. ?x i j) \<le> supply ! i"
      unfolding row_sum[of vals "\<lambda>j. i" "\<lambda>j. j" ?n] .
  qed
  have inflow: "\<And>j. j < ?n \<Longrightarrow> demand ! j \<le> (\<Sum>i<?m. ?x i j)"
  proof -
    fix j assume j: "j < ?n"
    have "(Demand j, \<lparr>lhs = lpSum (map (\<lambda>i. var_term (LpVariable i j)) [0..<?m]),
             sense = LpConstraintGE, rhs = demand ! j\<rparr>) \<in> set (constraints prob)"
      unfolding prob using j by (rule demand_row_mem)
    from holds_GE[OF feasible_constraint[OF feas this]]
    show "demand ! j \<le> (\<Sum>i<?m. ?x i j)"
      unfolding row_sum[of vals "\<lambda>i. i" "\<lambda>i. j" ?m] .
  qed
  have "sum_list demand = (\<Sum>j<?n. demand ! j)" by (rule sum_list_nth_lessThan)
  also have "\<dots> \<le> (\<Sum>j<?n. \<Sum>i<?m. ?x i j)"
    by (rule sum_mono) (simp add: inflow)
  also have "\<dots> = (\<Sum>i<?m. \<Sum>j<?n. ?x i j)" by (rule sum.swap)
  also have "\<dots> \<le> (\<Sum>i<?m. supply ! i)"
    by (rule sum_mono) (simp add: out)
  also have "\<dots> = sum_list supply" by (rule sum_list_nth_lessThan[symmetric])
  finally show False using gap by simp
qed

lemma solve_transportation_status:
  assumes "build_model costs supply demand capacities route_minimums prohibited_routes = Inr prob"
  shows "\<exists>res. solve_transportation solver costs supply demand capacities route_minimums
                  prohibited_routes = Inr res \<and>
               status res = LpStatus (status_code (solver prob))"
  unfolding solve_transportation_built[OF assms] by simp

lemma bex_routes:
  "(\<exists>r\<in>set (routes m n). P (fst r) (snd r)) \<longleftrightarrow> (\<exists>i<m. \<exists>j<n. P i j)"
proof
  assume "\<exists>r\<in>set (routes m n). P (fst r) (snd r)"
  then obtain r where r: "r \<in> set (routes m n)" "P (fst r) (snd r)" by blast
  from r(1) have "fst r < m" "snd r < n" by auto
  with r(2) show "\<exists>i<m. \<exists>j<n. P i j" by blast
next
  assume "\<exists>i<m. \<exists>j<n. P i j"
  then obtain i j where ij: "i < m" "j < n" "P i j" by blast
  then have "(i, j) \<in> set (routes m n)" by simp
  moreover have "P (fst (i, j)) (snd (i, j))" using ij(3) by simp
  ultimately show "\<exists>r\<in>set (routes m n). P (fst r) (snd r)" by (rule bexI[rotated])
qed

lemma affine_value_None_iff:
  "affine_value vals ts = None \<longleftrightarrow> (\<exists>t\<in>set ts. vals (var_name (fst t)) = None)"
proof (cases "affine_value vals ts")
  case None
  have "\<not> (\<forall>t\<in>set ts. vals (var_name (fst t)) \<noteq> None)"
  proof
    assume "\<forall>t\<in>set ts. vals (var_name (fst t)) \<noteq> None"
    then have "affine_value vals ts =
        Some (sum_list (map (\<lambda>t. the (vals (var_name (fst t))) * snd t) ts))"
      unfolding affine_value_Some_iff by simp
    with None show False by simp
  qed
  with None show ?thesis by simp
next
  case (Some s)
  then have "\<forall>t\<in>set ts. vals (var_name (fst t)) \<noteq> None"
    unfolding affine_value_Some_iff by simp
  with Some show ?thesis by simp
qed

lemma set_cost_terms:
  "t \<in> set (cost_terms costs m n) \<longleftrightarrow>
   (\<exists>i<m. \<exists>j<n. costs ! i ! j \<noteq> 0 \<and> t = (LpVariable i j, costs ! i ! j))"
proof -
  have "t \<in> set (cost_terms costs m n) \<longleftrightarrow>
      (\<exists>r\<in>set (routes m n).
         t \<in> set (times (costs ! fst r ! snd r) (LpVariable (fst r) (snd r))))"
    by (simp add: cost_terms_def lpSum_def case_prod_unfold del: set_routes)
  also have "\<dots> \<longleftrightarrow>
      (\<exists>r\<in>set (routes m n).
         costs ! fst r ! snd r \<noteq> 0 \<and>
         t = (LpVariable (fst r) (snd r), costs ! fst r ! snd r))"
    by (rule bex_cong[OF refl]) (auto simp: times_def)
  also have "\<dots> \<longleftrightarrow>
      (\<exists>i<m. \<exists>j<n. costs ! i ! j \<noteq> 0 \<and> t = (LpVariable i j, costs ! i ! j))"
    by (rule bex_routes)
  finally show ?thesis .
qed

lemma cost_terms_unvalued:
  "(\<exists>t\<in>set (cost_terms costs m n). vals (var_name (fst t)) = None) \<longleftrightarrow>
   (\<exists>i<m. \<exists>j<n. costs ! i ! j \<noteq> 0 \<and> vals (i, j) = None)"
proof
  assume "\<exists>t\<in>set (cost_terms costs m n). vals (var_name (fst t)) = None"
  then obtain t where t: "t \<in> set (cost_terms costs m n)" "vals (var_name (fst t)) = None"
    by blast
  from t(1) obtain i j where ij: "i < m" "j < n" "costs ! i ! j \<noteq> 0"
      "t = (LpVariable i j, costs ! i ! j)"
    unfolding set_cost_terms by blast
  from t(2) ij(4) have "vals (i, j) = None" by (simp add: LpVariable_def)
  with ij show "\<exists>i<m. \<exists>j<n. costs ! i ! j \<noteq> 0 \<and> vals (i, j) = None" by blast
next
  assume "\<exists>i<m. \<exists>j<n. costs ! i ! j \<noteq> 0 \<and> vals (i, j) = None"
  then obtain i j where ij: "i < m" "j < n" "costs ! i ! j \<noteq> 0" "vals (i, j) = None"
    by blast
  let ?t = "(LpVariable i j, costs ! i ! j)"
  have "?t \<in> set (cost_terms costs m n)" unfolding set_cost_terms using ij by blast
  moreover have "vals (var_name (fst ?t)) = None" using ij(4) by (simp add: LpVariable_def)
  ultimately show "\<exists>t\<in>set (cost_terms costs m n). vals (var_name (fst t)) = None" by blast
qed

lemma LpStatus_inj: "LpStatus a = LpStatus b \<longleftrightarrow> a = b"
  by (cases a; cases b) simp_all

lemma LpStatus_names:
  "LpStatus c \<in> {''Not Solved'', ''Optimal'', ''Infeasible'', ''Unbounded'', ''Undefined''}"
  by (cases c) simp_all

lemma cost_terms_nonempty:
  assumes "i < m" "j < n" "costs ! i ! j \<noteq> 0"
  shows "cost_terms costs m n \<noteq> []"
proof -
  have "(LpVariable i j, costs ! i ! j) \<in> set (cost_terms costs m n)"
    unfolding set_cost_terms using assms by blast
  then show ?thesis by auto
qed

section \<open>Supply and demand rows\<close>

text \<open>
  C1. In every model the function builds, the row named \<open>Supply_i\<close> bounds the total
  outflow of origin \<open>i\<close> from above by \<open>supply[i]\<close>, and the row named \<open>Demand_j\<close> bounds
  the total inflow of destination \<open>j\<close> from below by \<open>demand[j]\<close>. Both are inequalities:
  an assignment satisfies them exactly when the sum is at most the supply (so an origin
  need not be drained) and at least the demand (so excess inflow is allowed).
\<close>

theorem supply_upper_demand_lower:
  assumes eq: "build_model costs supply demand capacities route_minimums prohibited_routes = Inr prob"
  shows "(\<forall>i<length supply. \<exists>c.
            map_of (constraints prob) (Supply i) = Some c \<and>
            sense c = LpConstraintLE \<and> rhs c = supply ! i \<and>
            (\<forall>x. affine_value (\<lambda>k. Some (x k)) (lhs c) = Some (\<Sum>j<length demand. x (i, j))) \<and>
            (\<forall>x. constraint_holds (\<lambda>k. Some (x k)) c \<longleftrightarrow>
                  (\<Sum>j<length demand. x (i, j)) \<le> supply ! i)) \<and>
         (\<forall>j<length demand. \<exists>c.
            map_of (constraints prob) (Demand j) = Some c \<and>
            sense c = LpConstraintGE \<and> rhs c = demand ! j \<and>
            (\<forall>x. affine_value (\<lambda>k. Some (x k)) (lhs c) = Some (\<Sum>i<length supply. x (i, j))) \<and>
            (\<forall>x. constraint_holds (\<lambda>k. Some (x k)) c \<longleftrightarrow>
                  demand ! j \<le> (\<Sum>i<length supply. x (i, j))))"
proof (intro conjI allI impI)
  fix i assume i: "i < length supply"
  let ?c = "\<lparr>lhs = lpSum (map (\<lambda>j. var_term (LpVariable i j)) [0..<length demand]),
             sense = LpConstraintLE, rhs = supply ! i\<rparr>"
  have prob: "prob = closed_model costs supply demand capacities route_minimums prohibited_routes"
    using build_model_shape[OF eq] by simp
  have "(Supply i, ?c) \<in> set (constraints prob)"
    unfolding prob using i by (rule supply_row_mem)
  then have look: "map_of (constraints prob) (Supply i) = Some ?c"
    by (rule built_lookup[OF eq])
  have val: "\<And>x. affine_value (\<lambda>k. Some (x k)) (lhs ?c) = Some (\<Sum>j<length demand. x (i, j))"
    using row_value[of _ "\<lambda>j. i" "\<lambda>j. j" "length demand"] by simp
  have "\<And>x. constraint_holds (\<lambda>k. Some (x k)) ?c \<longleftrightarrow>
                  (\<Sum>j<length demand. x (i, j)) \<le> supply ! i"
    unfolding constraint_holds_def val by simp
  with look val show "\<exists>c. map_of (constraints prob) (Supply i) = Some c \<and>
            sense c = LpConstraintLE \<and> rhs c = supply ! i \<and>
            (\<forall>x. affine_value (\<lambda>k. Some (x k)) (lhs c) = Some (\<Sum>j<length demand. x (i, j))) \<and>
            (\<forall>x. constraint_holds (\<lambda>k. Some (x k)) c \<longleftrightarrow>
                  (\<Sum>j<length demand. x (i, j)) \<le> supply ! i)"
    by (intro exI[of _ ?c]) simp
next
  fix j assume j: "j < length demand"
  let ?c = "\<lparr>lhs = lpSum (map (\<lambda>i. var_term (LpVariable i j)) [0..<length supply]),
             sense = LpConstraintGE, rhs = demand ! j\<rparr>"
  have prob: "prob = closed_model costs supply demand capacities route_minimums prohibited_routes"
    using build_model_shape[OF eq] by simp
  have "(Demand j, ?c) \<in> set (constraints prob)"
    unfolding prob using j by (rule demand_row_mem)
  then have look: "map_of (constraints prob) (Demand j) = Some ?c"
    by (rule built_lookup[OF eq])
  have val: "\<And>x. affine_value (\<lambda>k. Some (x k)) (lhs ?c) = Some (\<Sum>i<length supply. x (i, j))"
    using row_value[of _ "\<lambda>i. i" "\<lambda>i. j" "length supply"] by simp
  have "\<And>x. constraint_holds (\<lambda>k. Some (x k)) ?c \<longleftrightarrow>
                  demand ! j \<le> (\<Sum>i<length supply. x (i, j))"
    unfolding constraint_holds_def val by simp
  with look val show "\<exists>c. map_of (constraints prob) (Demand j) = Some c \<and>
            sense c = LpConstraintGE \<and> rhs c = demand ! j \<and>
            (\<forall>x. affine_value (\<lambda>k. Some (x k)) (lhs c) = Some (\<Sum>i<length supply. x (i, j))) \<and>
            (\<forall>x. constraint_holds (\<lambda>k. Some (x k)) c \<longleftrightarrow>
                  demand ! j \<le> (\<Sum>i<length supply. x (i, j)))"
    by (intro exI[of _ ?c]) simp
qed

theorem supply_upper_demand_lower_witness:
  "build_model [[4, 6], [8, 5]] [20, 30] [10, 15] None None None =
     Inr (closed_model [[4, 6], [8, 5]] [20, 30] [10, 15] None None None) \<and>
   (\<exists>c. map_of (constraints (closed_model [[4, 6], [8, 5]] [20, 30] [10, 15] None None None))
          (Supply 1) = Some c \<and>
        sense c = LpConstraintLE \<and> rhs c = 30 \<and>
        constraint_holds (\<lambda>k. Some (if k = (1, 1) then 15 else 0)) c) \<and>
   (\<exists>c. map_of (constraints (closed_model [[4, 6], [8, 5]] [20, 30] [10, 15] None None None))
          (Demand 0) = Some c \<and>
        sense c = LpConstraintGE \<and> rhs c = 10 \<and>
        constraint_holds (\<lambda>k. Some (if k = (0, 0) then 12 else 0)) c)"
proof -
  have built: "build_model [[4, 6], [8, 5]] [20, 30] [10, 15] None None None =
     Inr (closed_model [[4, 6], [8, 5]] [20, 30] [10, 15] None None None)"
    by (rule build_model_succeeds)
       (simp add: well_formed_def covers_def routes_def truthy_def)
  note main = supply_upper_demand_lower[OF built]
  have "(1 :: nat) < length [20, 30 :: real]" by simp
  from main[THEN conjunct1, rule_format, OF this]
  obtain c1 where c1:
      "map_of (constraints (closed_model [[4, 6], [8, 5]] [20, 30] [10, 15] None None None))
          (Supply 1) = Some c1"
      "sense c1 = LpConstraintLE" "rhs c1 = [20, 30] ! 1"
      "\<And>x. constraint_holds (\<lambda>k. Some (x k)) c1 \<longleftrightarrow>
            (\<Sum>j<length [10, 15 :: real]. x (1, j)) \<le> [20, 30] ! 1"
    by blast
  have h1: "constraint_holds (\<lambda>k. Some (if k = (1, 1) then 15 else 0)) c1"
    unfolding c1(4) by (simp add: lessThan_Suc numeral_2_eq_2)
  have "(0 :: nat) < length [10, 15 :: real]" by simp
  from main[THEN conjunct2, rule_format, OF this]
  obtain c2 where c2:
      "map_of (constraints (closed_model [[4, 6], [8, 5]] [20, 30] [10, 15] None None None))
          (Demand 0) = Some c2"
      "sense c2 = LpConstraintGE" "rhs c2 = [10, 15] ! 0"
      "\<And>x. constraint_holds (\<lambda>k. Some (x k)) c2 \<longleftrightarrow>
            [10, 15] ! 0 \<le> (\<Sum>i<length [20, 30 :: real]. x (i, 0))"
    by blast
  have h2: "constraint_holds (\<lambda>k. Some (if k = (0, 0) then 12 else 0)) c2"
    unfolding c2(4) by (simp add: lessThan_Suc numeral_2_eq_2)
  have r1: "rhs c1 = 30" using c1(3) by simp
  have r2: "rhs c2 = 10" using c2(3) by simp
  from built c1(1,2) r1 h1 c2(1,2) r2 h2 show ?thesis by blast
qed

section \<open>Capacities and minimums\<close>

text \<open>
  C10. When a capacities matrix is passed and is not empty, every one of the routes
  \<open>(i, j)\<close> with \<open>i < m\<close> and \<open>j < n\<close> gets the row \<open>Capacity_i_j\<close>:
  \<open>x[i][j] <= capacities[i][j]\<close>; likewise a non-empty minimums matrix gives every route
  the row \<open>RouteMin_i_j\<close>: \<open>x[i][j] >= route_minimums[i][j]\<close>. No route is left out. With
  the variable's lower bound 0, any assignment that satisfies the model has
  \<open>0 <= x[i][j] <= capacities[i][j]\<close>, so a capacity of zero forces \<open>x[i][j] = 0\<close>.
\<close>

theorem bounds_on_every_route:
  assumes eq: "build_model costs supply demand capacities route_minimums prohibited_routes = Inr prob"
  shows "(\<forall>c. capacities = Some c \<and> c \<noteq> [] \<longrightarrow>
            (\<forall>i<length supply. \<forall>j<length demand.
               i < length c \<and> j < length (c ! i) \<and>
               map_of (constraints prob) (Capacity i j) =
                 Some \<lparr>lhs = var_term (LpVariable i j), sense = LpConstraintLE, rhs = c ! i ! j\<rparr> \<and>
               (\<forall>vals. feasible prob vals \<longrightarrow>
                  (\<exists>x. vals (i, j) = Some x \<and> 0 \<le> x \<and> x \<le> c ! i ! j)) \<and>
               (c ! i ! j = 0 \<longrightarrow> (\<forall>vals. feasible prob vals \<longrightarrow> vals (i, j) = Some 0)))) \<and>
         (\<forall>c. route_minimums = Some c \<and> c \<noteq> [] \<longrightarrow>
            (\<forall>i<length supply. \<forall>j<length demand.
               i < length c \<and> j < length (c ! i) \<and>
               map_of (constraints prob) (RouteMin i j) =
                 Some \<lparr>lhs = var_term (LpVariable i j), sense = LpConstraintGE, rhs = c ! i ! j\<rparr> \<and>
               (\<forall>vals. feasible prob vals \<longrightarrow>
                  (\<exists>x. vals (i, j) = Some x \<and> c ! i ! j \<le> x))))"
proof -
  from build_model_shape[OF eq]
  have wf: "well_formed costs supply demand capacities route_minimums prohibited_routes"
    and prob: "prob = closed_model costs supply demand capacities route_minimums prohibited_routes"
    by simp_all
  have caps: "\<And>c i j. capacities = Some c \<Longrightarrow> c \<noteq> [] \<Longrightarrow> i < length supply \<Longrightarrow>
      j < length demand \<Longrightarrow>
      i < length c \<and> j < length (c ! i) \<and>
      map_of (constraints prob) (Capacity i j) =
        Some \<lparr>lhs = var_term (LpVariable i j), sense = LpConstraintLE, rhs = c ! i ! j\<rparr> \<and>
      (\<forall>vals. feasible prob vals \<longrightarrow> (\<exists>x. vals (i, j) = Some x \<and> 0 \<le> x \<and> x \<le> c ! i ! j)) \<and>
      (c ! i ! j = 0 \<longrightarrow> (\<forall>vals. feasible prob vals \<longrightarrow> vals (i, j) = Some 0))"
  proof -
    fix c i j
    assume c: "capacities = Some c" "c \<noteq> []" and i: "i < length supply" and j: "j < length demand"
    let ?row = "\<lparr>lhs = var_term (LpVariable i j), sense = LpConstraintLE, rhs = c ! i ! j\<rparr>"
    have t: "truthy capacities" using c by (simp add: truthy_Some)
    have dims: "i < length c \<and> j < length (c ! i)"
      using wf t c i j by (simp add: well_formed_def covers_iff)
    have mem: "(Capacity i j, ?row) \<in> set (constraints prob)"
      unfolding prob using capacity_row_mem[OF t i j, of costs route_minimums prohibited_routes] c
      by simp
    have look: "map_of (constraints prob) (Capacity i j) = Some ?row"
      using mem by (rule built_lookup[OF eq])
    have feas: "\<And>vals. feasible prob vals \<Longrightarrow> \<exists>x. vals (i, j) = Some x \<and> 0 \<le> x \<and> x \<le> c ! i ! j"
      using feasible_single_var[OF _ mem] by simp
    have zero: "c ! i ! j = 0 \<Longrightarrow> (\<forall>vals. feasible prob vals \<longrightarrow> vals (i, j) = Some 0)"
    proof (intro allI impI)
      fix vals assume "c ! i ! j = 0" "feasible prob vals"
      with feas[of vals] obtain x where "vals (i, j) = Some x" "0 \<le> x" "x \<le> 0" by auto
      then show "vals (i, j) = Some 0" by simp
    qed
    show "i < length c \<and> j < length (c ! i) \<and>
      map_of (constraints prob) (Capacity i j) = Some ?row \<and>
      (\<forall>vals. feasible prob vals \<longrightarrow> (\<exists>x. vals (i, j) = Some x \<and> 0 \<le> x \<and> x \<le> c ! i ! j)) \<and>
      (c ! i ! j = 0 \<longrightarrow> (\<forall>vals. feasible prob vals \<longrightarrow> vals (i, j) = Some 0))"
      using dims look feas zero by blast
  qed
  have mins: "\<And>c i j. route_minimums = Some c \<Longrightarrow> c \<noteq> [] \<Longrightarrow> i < length supply \<Longrightarrow>
      j < length demand \<Longrightarrow>
      i < length c \<and> j < length (c ! i) \<and>
      map_of (constraints prob) (RouteMin i j) =
        Some \<lparr>lhs = var_term (LpVariable i j), sense = LpConstraintGE, rhs = c ! i ! j\<rparr> \<and>
      (\<forall>vals. feasible prob vals \<longrightarrow> (\<exists>x. vals (i, j) = Some x \<and> c ! i ! j \<le> x))"
  proof -
    fix c i j
    assume c: "route_minimums = Some c" "c \<noteq> []" and i: "i < length supply"
      and j: "j < length demand"
    let ?row = "\<lparr>lhs = var_term (LpVariable i j), sense = LpConstraintGE, rhs = c ! i ! j\<rparr>"
    have t: "truthy route_minimums" using c by (simp add: truthy_Some)
    have dims: "i < length c \<and> j < length (c ! i)"
      using wf t c i j by (simp add: well_formed_def covers_iff)
    have mem: "(RouteMin i j, ?row) \<in> set (constraints prob)"
      unfolding prob using minimum_row_mem[OF t i j, of costs capacities prohibited_routes] c
      by simp
    have look: "map_of (constraints prob) (RouteMin i j) = Some ?row"
      using mem by (rule built_lookup[OF eq])
    have feas: "\<And>vals. feasible prob vals \<Longrightarrow> \<exists>x. vals (i, j) = Some x \<and> c ! i ! j \<le> x"
      using feasible_single_var[OF _ mem] by auto
    show "i < length c \<and> j < length (c ! i) \<and>
      map_of (constraints prob) (RouteMin i j) = Some ?row \<and>
      (\<forall>vals. feasible prob vals \<longrightarrow> (\<exists>x. vals (i, j) = Some x \<and> c ! i ! j \<le> x))"
      using dims look feas by blast
  qed
  show ?thesis
    using caps mins by (intro conjI allI impI; (elim conjE)?) blast+
qed

theorem bounds_on_every_route_witness:
  "build_model [[1, 2]] [10] [0, 4] (Some [[0, 5]]) (Some [[0, 2]]) None =
     Inr (closed_model [[1, 2]] [10] [0, 4] (Some [[0, 5]]) (Some [[0, 2]]) None) \<and>
   map_of (constraints (closed_model [[1, 2]] [10] [0, 4] (Some [[0, 5]]) (Some [[0, 2]]) None))
     (Capacity 0 0) =
     Some \<lparr>lhs = var_term (LpVariable 0 0), sense = LpConstraintLE, rhs = 0\<rparr> \<and>
   map_of (constraints (closed_model [[1, 2]] [10] [0, 4] (Some [[0, 5]]) (Some [[0, 2]]) None))
     (RouteMin 0 1) =
     Some \<lparr>lhs = var_term (LpVariable 0 1), sense = LpConstraintGE, rhs = 2\<rparr> \<and>
   feasible (closed_model [[1, 2]] [10] [0, 4] (Some [[0, 5]]) (Some [[0, 2]]) None)
     (\<lambda>k. if k = (0, 1) then Some 4 else Some 0) \<and>
   (\<lambda>k. if k = (0, 1) then Some 4 else Some (0 :: real)) (0 :: nat, 0 :: nat) = Some 0"
proof -
  let ?prob = "closed_model [[1, 2]] [10] [0, 4] (Some [[0, 5]]) (Some [[0, 2]]) None"
  let ?vals = "\<lambda>k :: nat \<times> nat. if k = (0, 1) then Some 4 else Some (0 :: real)"
  have built: "build_model [[1, 2]] [10] [0, 4] (Some [[0, 5]]) (Some [[0, 2]]) None = Inr ?prob"
    by (rule build_model_succeeds)
       (simp add: well_formed_def covers_def routes_def truthy_def)
  have feas: "feasible ?prob ?vals"
    by (simp add: feasible_def closed_model_def supply_rows_def demand_rows_def
        capacity_rows_def minimum_rows_def prohibited_rows_def cost_terms_def
        problem_variables_def within_bounds_def constraint_holds_def lpSum_def var_term_def
        times_def LpVariable_def routes_def truthy_def)
  note main = bounds_on_every_route[OF built]
  have c: "Some [[0, 5 :: real]] = Some [[0, 5]] \<and> [[0, 5 :: real]] \<noteq> []" by simp
  have i: "(0 :: nat) < length [10 :: real]" and j: "(0 :: nat) < length [0, 4 :: real]"
    and j1: "(1 :: nat) < length [0, 4 :: real]" by simp_all
  note cap = main[THEN conjunct1, rule_format, OF c i j]
  have look: "map_of (constraints ?prob) (Capacity 0 0) =
     Some \<lparr>lhs = var_term (LpVariable 0 0), sense = LpConstraintLE, rhs = 0\<rparr>"
    using cap by simp
  have "[[0, 5 :: real]] ! 0 ! 0 = 0" by simp
  with cap feas have zero: "?vals (0, 0) = Some 0" by blast
  have m: "Some [[0, 2 :: real]] = Some [[0, 2]] \<and> [[0, 2 :: real]] \<noteq> []" by simp
  note mn = main[THEN conjunct2, rule_format, OF m i j1]
  have look2: "map_of (constraints ?prob) (RouteMin 0 1) =
     Some \<lparr>lhs = var_term (LpVariable 0 1), sense = LpConstraintGE, rhs = 2\<rparr>"
    using mn by simp
  from built look look2 feas zero show ?thesis by blast
qed

section \<open>A capacity below the minimum\<close>

text \<open>
  The function has no check that compares capacities with minimums. With capacity 2 and
  minimum 5 on the only route it builds the model with both rows and runs the solver.
\<close>

theorem conflicting_bounds_not_rejected:
  "build_model [[1]] [10] [10] (Some [[2]]) (Some [[5]]) None =
     Inr \<lparr>problem_sense = LpMinimize, objective = [(LpVariable 0 0, 1)],
          constraints =
            [(Supply 0, \<lparr>lhs = [(LpVariable 0 0, 1)], sense = LpConstraintLE, rhs = 10\<rparr>),
             (Demand 0, \<lparr>lhs = [(LpVariable 0 0, 1)], sense = LpConstraintGE, rhs = 10\<rparr>),
             (Capacity 0 0, \<lparr>lhs = [(LpVariable 0 0, 1)], sense = LpConstraintLE, rhs = 2\<rparr>),
             (RouteMin 0 0, \<lparr>lhs = [(LpVariable 0 0, 1)], sense = LpConstraintGE, rhs = 5\<rparr>)]\<rparr> \<and>
   solve_transportation (fixed_answer LpStatusInfeasible no_values)
     [[1]] [10] [10] (Some [[2]]) (Some [[5]]) None =
     Inr \<lparr>status = ''Infeasible'', total_cost = None, variables = [((0, 0), None)]\<rparr>"
  by (simp add: solve_transportation_def build_model_def routes_def item2_def item_def
      times_def lpSum_def var_term_def addConstraint_def truthy_def fixed_answer_def value_after_solve_def
      no_values_def)

text \<open>
  C5, as the code has it. When \<open>capacities[i][j] < route_minimums[i][j]\<close> on some route of
  inputs of matching dimensions, the builder raises nothing: the model holds both
  \<open>x[i][j] <= capacities[i][j]\<close> and \<open>x[i][j] >= route_minimums[i][j]\<close>, no assignment
  satisfies it, and the solver is run on it; the returned status is the solver's.
\<close>

theorem conflicting_bounds_left_to_solver:
  assumes wf: "well_formed costs supply demand capacities route_minimums prohibited_routes"
    and caps: "capacities = Some c" "c \<noteq> []"
    and mins: "route_minimums = Some mn" "mn \<noteq> []"
    and i: "i < length supply" and j: "j < length demand"
    and conflict: "c ! i ! j < mn ! i ! j"
  shows "\<exists>prob. build_model costs supply demand capacities route_minimums prohibited_routes =
                  Inr prob \<and>
           map_of (constraints prob) (Capacity i j) =
             Some \<lparr>lhs = var_term (LpVariable i j), sense = LpConstraintLE, rhs = c ! i ! j\<rparr> \<and>
           map_of (constraints prob) (RouteMin i j) =
             Some \<lparr>lhs = var_term (LpVariable i j), sense = LpConstraintGE, rhs = mn ! i ! j\<rparr> \<and>
           (\<forall>vals. \<not> feasible prob vals) \<and>
           (\<forall>solver. \<exists>res.
              solve_transportation solver costs supply demand capacities route_minimums
                prohibited_routes = Inr res \<and>
              status res = LpStatus (status_code (solver prob)))"
proof -
  let ?prob = "closed_model costs supply demand capacities route_minimums prohibited_routes"
  let ?cap = "\<lparr>lhs = var_term (LpVariable i j), sense = LpConstraintLE, rhs = c ! i ! j\<rparr>"
  let ?min = "\<lparr>lhs = var_term (LpVariable i j), sense = LpConstraintGE, rhs = mn ! i ! j\<rparr>"
  have built: "build_model costs supply demand capacities route_minimums prohibited_routes =
      Inr ?prob"
    using wf by (rule build_model_succeeds)
  have tc: "truthy capacities" and tm: "truthy route_minimums"
    using caps mins by (simp_all add: truthy_Some)
  have cap: "(Capacity i j, ?cap) \<in> set (constraints ?prob)"
    using capacity_row_mem[OF tc i j, of costs route_minimums prohibited_routes] caps by simp
  have mn: "(RouteMin i j, ?min) \<in> set (constraints ?prob)"
    using minimum_row_mem[OF tm i j, of costs capacities prohibited_routes] mins by simp
  have none: "\<forall>vals. \<not> feasible ?prob vals"
  proof (intro allI notI)
    fix vals assume feas: "feasible ?prob vals"
    from feasible_single_var[OF feas cap] obtain x where x: "vals (i, j) = Some x" "x \<le> c ! i ! j"
      by auto
    from feasible_single_var[OF feas mn] obtain y where y: "vals (i, j) = Some y" "mn ! i ! j \<le> y"
      by auto
    from x y conflict show False by simp
  qed
  from built built_lookup[OF built cap] built_lookup[OF built mn] none
    solve_transportation_status[OF built]
  show ?thesis by blast
qed

theorem conflicting_bounds_left_to_solver_witness:
  "well_formed [[1]] [10] [10] (Some [[2]]) (Some [[5]]) None \<and>
   [[2 :: real]] ! 0 ! 0 < [[5]] ! 0 ! 0 \<and>
   map_of (constraints (closed_model [[1]] [10] [10] (Some [[2]]) (Some [[5]]) None))
     (Capacity 0 0) =
     Some \<lparr>lhs = var_term (LpVariable 0 0), sense = LpConstraintLE, rhs = 2\<rparr> \<and>
   map_of (constraints (closed_model [[1]] [10] [10] (Some [[2]]) (Some [[5]]) None))
     (RouteMin 0 0) =
     Some \<lparr>lhs = var_term (LpVariable 0 0), sense = LpConstraintGE, rhs = 5\<rparr> \<and>
   \<not> feasible (closed_model [[1]] [10] [10] (Some [[2]]) (Some [[5]]) None) (same_value 3)"
proof -
  let ?prob = "closed_model [[1]] [10] [10] (Some [[2]]) (Some [[5]]) None"
  have wf: "well_formed [[1]] [10] [10] (Some [[2]]) (Some [[5]]) None"
    by (simp add: well_formed_def covers_def routes_def truthy_def)
  have conflict: "[[2 :: real]] ! 0 ! 0 < [[5]] ! 0 ! 0" by simp
  have i: "(0 :: nat) < length [10 :: real]" by simp
  have ne: "[[2 :: real]] \<noteq> []" "[[5 :: real]] \<noteq> []" by simp_all
  from conflicting_bounds_left_to_solver[OF wf refl ne(1) refl ne(2) i i conflict]
  obtain prob where built: "build_model [[1]] [10] [10] (Some [[2]]) (Some [[5]]) None = Inr prob"
    and cap: "map_of (constraints prob) (Capacity 0 0) =
      Some \<lparr>lhs = var_term (LpVariable 0 0), sense = LpConstraintLE, rhs = [[2]] ! 0 ! 0\<rparr>"
    and mn: "map_of (constraints prob) (RouteMin 0 0) =
      Some \<lparr>lhs = var_term (LpVariable 0 0), sense = LpConstraintGE, rhs = [[5]] ! 0 ! 0\<rparr>"
    and none: "\<forall>vals. \<not> feasible prob vals"
    by blast
  have prob: "prob = ?prob" using built build_model_succeeds[OF wf] by simp
  from cap mn none wf conflict show ?thesis unfolding prob by simp
qed

section \<open>Negative entries\<close>

text \<open>
  The function never looks at the sign of an entry. With supply -1, demand -2, capacity -3
  and minimum -4 it builds the model with these numbers as right-hand sides and runs the
  solver.
\<close>

theorem negative_entries_not_rejected:
  "build_model [[1]] [- 1] [- 2] (Some [[- 3]]) (Some [[- 4]]) None =
     Inr \<lparr>problem_sense = LpMinimize, objective = [(LpVariable 0 0, 1)],
          constraints =
            [(Supply 0, \<lparr>lhs = [(LpVariable 0 0, 1)], sense = LpConstraintLE, rhs = - 1\<rparr>),
             (Demand 0, \<lparr>lhs = [(LpVariable 0 0, 1)], sense = LpConstraintGE, rhs = - 2\<rparr>),
             (Capacity 0 0, \<lparr>lhs = [(LpVariable 0 0, 1)], sense = LpConstraintLE, rhs = - 3\<rparr>),
             (RouteMin 0 0, \<lparr>lhs = [(LpVariable 0 0, 1)], sense = LpConstraintGE, rhs = - 4\<rparr>)]\<rparr> \<and>
   solve_transportation (fixed_answer LpStatusInfeasible no_values)
     [[1]] [- 1] [- 2] (Some [[- 3]]) (Some [[- 4]]) None =
     Inr \<lparr>status = ''Infeasible'', total_cost = None, variables = [((0, 0), None)]\<rparr>"
  by (simp add: solve_transportation_def build_model_def routes_def item2_def item_def
      times_def lpSum_def var_term_def addConstraint_def truthy_def fixed_answer_def value_after_solve_def
      no_values_def)

text \<open>
  C8, as the code has it. For inputs of matching dimensions, whatever the sign of the
  entries, the builder raises nothing: each supply, demand, capacity and minimum entry
  becomes, unchanged, the right-hand side of its row, and the solver is run; the returned
  status is the solver's.
\<close>

theorem entries_of_any_sign_become_right_hand_sides:
  assumes wf: "well_formed costs supply demand capacities route_minimums prohibited_routes"
  shows "\<exists>prob. build_model costs supply demand capacities route_minimums prohibited_routes =
                  Inr prob \<and>
           (\<forall>i<length supply. \<exists>c. map_of (constraints prob) (Supply i) = Some c \<and>
                                    rhs c = supply ! i) \<and>
           (\<forall>j<length demand. \<exists>c. map_of (constraints prob) (Demand j) = Some c \<and>
                                    rhs c = demand ! j) \<and>
           (truthy capacities \<longrightarrow>
              (\<forall>i<length supply. \<forall>j<length demand.
                 \<exists>c. map_of (constraints prob) (Capacity i j) = Some c \<and>
                     rhs c = the capacities ! i ! j)) \<and>
           (truthy route_minimums \<longrightarrow>
              (\<forall>i<length supply. \<forall>j<length demand.
                 \<exists>c. map_of (constraints prob) (RouteMin i j) = Some c \<and>
                     rhs c = the route_minimums ! i ! j)) \<and>
           (\<forall>solver. \<exists>res.
              solve_transportation solver costs supply demand capacities route_minimums
                prohibited_routes = Inr res \<and>
              status res = LpStatus (status_code (solver prob)))"
proof -
  let ?prob = "closed_model costs supply demand capacities route_minimums prohibited_routes"
  have built: "build_model costs supply demand capacities route_minimums prohibited_routes =
      Inr ?prob"
    using wf by (rule build_model_succeeds)
  have s: "\<forall>i<length supply. \<exists>c. map_of (constraints ?prob) (Supply i) = Some c \<and>
                                    rhs c = supply ! i"
  proof (intro allI impI)
    fix i assume "i < length supply"
    from built_lookup[OF built supply_row_mem[OF this]]
    show "\<exists>c. map_of (constraints ?prob) (Supply i) = Some c \<and> rhs c = supply ! i" by simp
  qed
  have d: "\<forall>j<length demand. \<exists>c. map_of (constraints ?prob) (Demand j) = Some c \<and>
                                    rhs c = demand ! j"
  proof (intro allI impI)
    fix j assume "j < length demand"
    from built_lookup[OF built demand_row_mem[OF this]]
    show "\<exists>c. map_of (constraints ?prob) (Demand j) = Some c \<and> rhs c = demand ! j" by simp
  qed
  have c: "truthy capacities \<longrightarrow>
              (\<forall>i<length supply. \<forall>j<length demand.
                 \<exists>c. map_of (constraints ?prob) (Capacity i j) = Some c \<and>
                     rhs c = the capacities ! i ! j)"
  proof (intro allI impI)
    fix i j assume "truthy capacities" "i < length supply" "j < length demand"
    from built_lookup[OF built capacity_row_mem[OF this]]
    show "\<exists>c. map_of (constraints ?prob) (Capacity i j) = Some c \<and>
              rhs c = the capacities ! i ! j" by simp
  qed
  have m: "truthy route_minimums \<longrightarrow>
              (\<forall>i<length supply. \<forall>j<length demand.
                 \<exists>c. map_of (constraints ?prob) (RouteMin i j) = Some c \<and>
                     rhs c = the route_minimums ! i ! j)"
  proof (intro allI impI)
    fix i j assume "truthy route_minimums" "i < length supply" "j < length demand"
    from built_lookup[OF built minimum_row_mem[OF this]]
    show "\<exists>c. map_of (constraints ?prob) (RouteMin i j) = Some c \<and>
              rhs c = the route_minimums ! i ! j" by simp
  qed
  from built s d c m solve_transportation_status[OF built] show ?thesis by blast
qed

theorem entries_of_any_sign_become_right_hand_sides_witness:
  "well_formed [[1]] [- 1] [- 2] (Some [[- 3]]) (Some [[- 4]]) None \<and>
   (\<exists>c. map_of (constraints (closed_model [[1]] [- 1] [- 2] (Some [[- 3]]) (Some [[- 4]]) None))
          (Supply 0) = Some c \<and> rhs c = - 1) \<and>
   (\<exists>c. map_of (constraints (closed_model [[1]] [- 1] [- 2] (Some [[- 3]]) (Some [[- 4]]) None))
          (RouteMin 0 0) = Some c \<and> rhs c = - 4)"
proof -
  let ?prob = "closed_model [[1]] [- 1] [- 2] (Some [[- 3]]) (Some [[- 4]]) None"
  have wf: "well_formed [[1]] [- 1] [- 2] (Some [[- 3]]) (Some [[- 4]]) None"
    by (simp add: well_formed_def covers_def routes_def truthy_def)
  from entries_of_any_sign_become_right_hand_sides[OF wf]
  obtain prob where built: "build_model [[1]] [- 1] [- 2] (Some [[- 3]]) (Some [[- 4]]) None =
      Inr prob"
    and s: "\<forall>i<length [- 1 :: real]. \<exists>c. map_of (constraints prob) (Supply i) = Some c \<and>
              rhs c = [- 1] ! i"
    and m: "truthy (Some [[- 4 :: real]]) \<longrightarrow>
              (\<forall>i<length [- 1 :: real]. \<forall>j<length [- 2 :: real].
                 \<exists>c. map_of (constraints prob) (RouteMin i j) = Some c \<and>
                     rhs c = the (Some [[- 4]]) ! i ! j)"
    by blast
  have prob: "prob = ?prob" using built build_model_succeeds[OF wf] by simp
  have "\<exists>c. map_of (constraints ?prob) (Supply 0) = Some c \<and> rhs c = - 1"
    using s[rule_format, of 0] unfolding prob by simp
  moreover have "\<exists>c. map_of (constraints ?prob) (RouteMin 0 0) = Some c \<and> rhs c = - 4"
    using m[rule_format, of 0 0] unfolding prob by (simp add: truthy_def)
  ultimately show ?thesis using wf by blast
qed

section \<open>The status\<close>

text \<open>
  The status is looked up in PuLP's table and returned as it is. A solver that stops
  without a verdict gives the status "Not Solved", which is none of the four.
\<close>

theorem not_solved_status_passed_through:
  "solve_transportation (fixed_answer LpStatusNotSolved no_values)
     [[1]] [1] [1] None None None =
     Inr \<lparr>status = ''Not Solved'', total_cost = None, variables = [((0, 0), None)]\<rparr> \<and>
   ''Not Solved'' \<notin> {''Optimal'', ''Infeasible'', ''Unbounded'', ''Undefined''}"
  by (simp add: solve_transportation_def build_model_def routes_def item2_def item_def
      times_def lpSum_def var_term_def addConstraint_def truthy_def fixed_answer_def value_after_solve_def
      no_values_def LpVariable_def)

text \<open>
  C7, as the code has it. The returned status is the name PuLP's table gives the raw solver
  status, one of the five names Not Solved, Optimal, Infeasible, Unbounded and Undefined;
  different raw statuses give different names, so nothing is merged into Undefined.
\<close>

theorem status_is_solver_status_name:
  assumes eq: "build_model costs supply demand capacities route_minimums prohibited_routes = Inr prob"
    and res: "solve_transportation solver costs supply demand capacities route_minimums
                prohibited_routes = Inr res"
  shows "status res = LpStatus (status_code (solver prob)) \<and>
         status res \<in> {''Not Solved'', ''Optimal'', ''Infeasible'', ''Unbounded'', ''Undefined''} \<and>
         (\<forall>c. status res = LpStatus c \<longleftrightarrow> c = status_code (solver prob))"
proof -
  from res have "status res = LpStatus (status_code (solver prob))"
    unfolding solve_transportation_built[OF eq] by auto
  then have s: "status res = LpStatus (status_code (solver prob))" .
  have n: "status res \<in>
      {''Not Solved'', ''Optimal'', ''Infeasible'', ''Unbounded'', ''Undefined''}"
    unfolding s by (rule LpStatus_names)
  have u: "\<forall>c. status res = LpStatus c \<longleftrightarrow> c = status_code (solver prob)"
    unfolding s LpStatus_inj by blast
  show ?thesis by (intro conjI) (fact s, fact n, fact u)
qed

theorem status_is_solver_status_name_witness:
  "build_model [[2]] [3] [3] None None None = Inr (closed_model [[2]] [3] [3] None None None) \<and>
   solve_transportation (fixed_answer LpStatusUndefined no_values) [[2]] [3] [3] None None None =
     Inr \<lparr>status = ''Undefined'', total_cost = None, variables = [((0, 0), None)]\<rparr> \<and>
   ''Undefined'' = LpStatus (status_code (fixed_answer LpStatusUndefined no_values
       (closed_model [[2]] [3] [3] None None None)))"
proof -
  let ?prob = "closed_model [[2]] [3] [3] None None None"
  let ?solver = "fixed_answer LpStatusUndefined no_values"
  let ?res = "\<lparr>status = ''Undefined'', total_cost = None :: real option,
               variables = [((0 :: nat, 0 :: nat), None :: real option)]\<rparr>"
  have built: "build_model [[2]] [3] [3] None None None = Inr ?prob"
    by (rule build_model_succeeds)
       (simp add: well_formed_def covers_def routes_def truthy_def)
  have res: "solve_transportation ?solver [[2]] [3] [3] None None None = Inr ?res"
    unfolding solve_transportation_built[OF built]
    by (simp add: fixed_answer_def value_after_solve_def no_values_def closed_model_def cost_terms_def lpSum_def
        times_def LpVariable_def routes_def)
  from status_is_solver_status_name[OF built res]
  have "status ?res = LpStatus (status_code (?solver ?prob))" by blast
  then have "''Undefined'' = LpStatus (status_code (?solver ?prob))" by simp
  with built res show ?thesis by blast
qed

section \<open>Read-back values\<close>

text \<open>
  The values are read back with \<open>varValue\<close> and nothing else is done to them. A value of
  -5e-8 in an Optimal result, inside \<open>[-1e-7, 0)\<close>, is returned as it is.
\<close>

theorem negative_noise_not_clamped:
  "solve_transportation (fixed_answer LpStatusOptimal (same_value (- (1 / 20000000))))
     [[1]] [1] [0] None None None =
     Inr \<lparr>status = ''Optimal'', total_cost = Some (- (1 / 20000000)),
          variables = [((0, 0), Some (- (1 / 20000000)))]\<rparr> \<and>
   - (1 / 10000000) \<le> (- (1 / 20000000) :: real) \<and> (- (1 / 20000000) :: real) < 0"
  by (simp add: solve_transportation_def build_model_def routes_def item2_def item_def
      times_def lpSum_def var_term_def addConstraint_def truthy_def fixed_answer_def value_after_solve_def
      same_value_def LpVariable_def)

text \<open>
  C9, as the code has it. For every status, the entry of each route in the returned matrix
  is the value the solver left in the variable, unchanged; a negative value is reported as
  that negative value and not as 0.
\<close>

theorem read_back_values_reported_unchanged:
  assumes eq: "build_model costs supply demand capacities route_minimums prohibited_routes = Inr prob"
    and res: "solve_transportation solver costs supply demand capacities route_minimums
                prohibited_routes = Inr res"
    and i: "i < length supply" and j: "j < length demand"
  shows "map_of (variables res) (i, j) = Some (varValue (solver prob) (i, j)) \<and>
         (\<forall>v. varValue (solver prob) (i, j) = Some v \<and> v < 0 \<longrightarrow>
              map_of (variables res) (i, j) = Some (Some v) \<and>
              map_of (variables res) (i, j) \<noteq> Some (Some 0))"
proof -
  from res have "variables res = map (\<lambda>(i, j). ((i, j), varValue (solver prob) (i, j)))
      (routes (length supply) (length demand))"
    unfolding solve_transportation_built[OF eq] by auto
  then have "map_of (variables res) (i, j) = Some (varValue (solver prob) (i, j))"
    using i j by (simp add: variables_lookup)
  then show ?thesis by auto
qed

theorem read_back_values_reported_unchanged_witness:
  "build_model [[3]] [4] [1] None None None = Inr (closed_model [[3]] [4] [1] None None None) \<and>
   solve_transportation (fixed_answer LpStatusOptimal (same_value (- (1 / 50000000))))
     [[3]] [4] [1] None None None =
     Inr \<lparr>status = ''Optimal'', total_cost = Some (- (3 / 50000000)),
          variables = [((0, 0), Some (- (1 / 50000000)))]\<rparr> \<and>
   varValue (fixed_answer LpStatusOptimal (same_value (- (1 / 50000000)))
              (closed_model [[3]] [4] [1] None None None)) (0, 0) = Some (- (1 / 50000000)) \<and>
   (- (1 / 50000000) :: real) < 0 \<and>
   map_of [((0 :: nat, 0 :: nat), Some (- (1 / 50000000) :: real))] (0, 0) \<noteq> Some (Some 0)"
proof -
  let ?prob = "closed_model [[3]] [4] [1] None None None"
  let ?solver = "fixed_answer LpStatusOptimal (same_value (- (1 / 50000000)))"
  let ?res = "\<lparr>status = ''Optimal'', total_cost = Some (- (3 / 50000000) :: real),
          variables = [((0 :: nat, 0 :: nat), Some (- (1 / 50000000) :: real))]\<rparr>"
  have built: "build_model [[3]] [4] [1] None None None = Inr ?prob"
    by (rule build_model_succeeds)
       (simp add: well_formed_def covers_def routes_def truthy_def)
  have res: "solve_transportation ?solver [[3]] [4] [1] None None None = Inr ?res"
    unfolding solve_transportation_built[OF built]
    by (simp add: fixed_answer_def value_after_solve_def same_value_def closed_model_def cost_terms_def lpSum_def
        times_def LpVariable_def routes_def)
  have i: "(0 :: nat) < length [4 :: real]" and j: "(0 :: nat) < length [1 :: real]" by simp_all
  have v: "varValue (?solver ?prob) (0, 0) = Some (- (1 / 50000000))"
    by (simp add: fixed_answer_def value_after_solve_def same_value_def)
  have neg: "(- (1 / 50000000) :: real) < 0" by simp
  from read_back_values_reported_unchanged[OF built res i j] v neg
  have "map_of (variables ?res) (0, 0) \<noteq> Some (Some 0)" by blast
  then have "map_of [((0 :: nat, 0 :: nat), Some (- (1 / 50000000) :: real))] (0, 0) \<noteq>
      Some (Some 0)" by simp
  with built res v neg show ?thesis by blast
qed

section \<open>Prohibited routes\<close>




section \<open>Total cost\<close>

text \<open>
  C3. With the single cost 0, supply 5, demand 3 and a solver that reports Optimal with
  the shipment 3, the sum of cost times shipment is 0, and the function returns no total
  cost at all (\<open>None\<close>): the objective has no terms, and after \<open>solve\<close> its value cannot be
  read.
\<close>

theorem total_cost_missing_for_zero_costs:
  "solve_transportation (fixed_answer LpStatusOptimal (same_value 3))
     [[0]] [5] [3] None None None =
     Inr \<lparr>status = ''Optimal'', total_cost = None, variables = [((0, 0), Some 3)]\<rparr>"
  by (simp add: solve_transportation_def build_model_def routes_def item2_def item_def
      times_def lpSum_def var_term_def addConstraint_def truthy_def fixed_answer_def
      value_after_solve_def same_value_def LpVariable_def)

section \<open>Demand above supply\<close>

text \<open>
  The status is the solver's. With supply 5 and demand 5.00000001 on a single route, a
  solver that accepts the shortfall within its tolerance and reports Optimal with the
  shipment 5 has Optimal returned.
\<close>

theorem optimal_reported_despite_shortfall:
  "sum_list [5 :: real] < sum_list [500000001 / 100000000] \<and>
   solve_transportation (fixed_answer LpStatusOptimal (same_value 5))
     [[1]] [5] [500000001 / 100000000] None None None =
     Inr \<lparr>status = ''Optimal'', total_cost = Some 5, variables = [((0, 0), Some 5)]\<rparr>"
  by (simp add: solve_transportation_def build_model_def routes_def item2_def item_def
      times_def lpSum_def var_term_def addConstraint_def truthy_def fixed_answer_def
      value_after_solve_def same_value_def LpVariable_def)

text \<open>
  C4, as the code has it. For inputs of matching dimensions whose total demand exceeds the
  total supply, the builder still builds the model (it never judges feasibility), and no
  assignment satisfies that model, whatever capacities, minimums or prohibited routes come
  with it. The returned status is the solver's verdict: it is Infeasible exactly when the
  solver reports Infeasible. The example is supply [5], demand [10] on a single route.
\<close>

theorem demand_exceeding_supply_model_infeasible:
  assumes wf: "well_formed costs supply demand capacities route_minimums prohibited_routes"
    and gap: "sum_list supply < sum_list demand"
  shows "\<exists>prob. build_model costs supply demand capacities route_minimums prohibited_routes =
                  Inr prob \<and>
           (\<forall>vals. \<not> feasible prob vals) \<and>
           (\<forall>solver. \<exists>res.
              solve_transportation solver costs supply demand capacities route_minimums
                prohibited_routes = Inr res \<and>
              status res = LpStatus (status_code (solver prob)) \<and>
              (status res = ''Infeasible'' \<longleftrightarrow> status_code (solver prob) = LpStatusInfeasible))"
proof -
  let ?prob = "closed_model costs supply demand capacities route_minimums prohibited_routes"
  have built: "build_model costs supply demand capacities route_minimums prohibited_routes =
      Inr ?prob"
    using wf by (rule build_model_succeeds)
  have none: "\<forall>vals. \<not> feasible ?prob vals"
    using demand_exceeds_supply_infeasible[OF built gap] by blast
  have pass: "\<forall>solver. \<exists>res.
      solve_transportation solver costs supply demand capacities route_minimums
        prohibited_routes = Inr res \<and>
      status res = LpStatus (status_code (solver ?prob)) \<and>
      (status res = ''Infeasible'' \<longleftrightarrow> status_code (solver ?prob) = LpStatusInfeasible)"
  proof
    fix solver
    from solve_transportation_status[OF built, of solver]
    obtain res where res: "solve_transportation solver costs supply demand capacities
        route_minimums prohibited_routes = Inr res"
      and st: "status res = LpStatus (status_code (solver ?prob))" by blast
    have "status res = ''Infeasible'' \<longleftrightarrow> status_code (solver ?prob) = LpStatusInfeasible"
      unfolding st by (rule LpStatus_Infeasible)
    with res st show "\<exists>res.
      solve_transportation solver costs supply demand capacities route_minimums
        prohibited_routes = Inr res \<and>
      status res = LpStatus (status_code (solver ?prob)) \<and>
      (status res = ''Infeasible'' \<longleftrightarrow> status_code (solver ?prob) = LpStatusInfeasible)"
      by blast
  qed
  from built none pass show ?thesis by blast
qed

theorem demand_exceeding_supply_model_infeasible_witness:
  "well_formed [[1]] [5] [10] None None None \<and>
   sum_list [5 :: real] < sum_list [10] \<and>
   \<not> feasible (closed_model [[1]] [5] [10] None None None) (same_value 5) \<and>
   \<not> feasible (closed_model [[1]] [5] [10] None None None) (same_value 10) \<and>
   solve_transportation (fixed_answer LpStatusInfeasible no_values)
     [[1]] [5] [10] None None None =
     Inr \<lparr>status = ''Infeasible'', total_cost = None, variables = [((0, 0), None)]\<rparr>"
proof -
  let ?prob = "closed_model [[1]] [5] [10] None None None"
  let ?solver = "fixed_answer LpStatusInfeasible no_values"
  have wf: "well_formed [[1]] [5] [10] None None None"
    by (simp add: well_formed_def covers_def routes_def truthy_def)
  have gap: "sum_list [5 :: real] < sum_list [10]" by simp
  from demand_exceeding_supply_model_infeasible[OF wf gap]
  obtain prob where built: "build_model [[1]] [5] [10] None None None = Inr prob"
    and none: "\<forall>vals. \<not> feasible prob vals"
    and pass: "\<forall>solver. \<exists>res.
      solve_transportation solver [[1]] [5] [10] None None None = Inr res \<and>
      status res = LpStatus (status_code (solver prob)) \<and>
      (status res = ''Infeasible'' \<longleftrightarrow> status_code (solver prob) = LpStatusInfeasible)"
    by blast
  have prob: "prob = ?prob" using built build_model_succeeds[OF wf] by simp
  from pass obtain res where
    res: "solve_transportation ?solver [[1]] [5] [10] None None None = Inr res"
    and st: "status res = ''Infeasible'' \<longleftrightarrow> status_code (?solver prob) = LpStatusInfeasible"
    by blast
  have inf: "status res = ''Infeasible''" unfolding st by (simp add: fixed_answer_def)
  have "solve_transportation ?solver [[1]] [5] [10] None None None =
     Inr \<lparr>status = LpStatus (status_code (?solver ?prob)),
          total_cost = value_after_solve (varValue (?solver ?prob)) (objective ?prob),
          variables = map (\<lambda>(i, j). ((i, j), varValue (?solver ?prob) (i, j)))
                        (routes (length [5 :: real]) (length [10 :: real]))\<rparr>"
    using built unfolding prob by (rule solve_transportation_built)
  with res inf have full: "solve_transportation ?solver [[1]] [5] [10] None None None =
     Inr \<lparr>status = ''Infeasible'', total_cost = None, variables = [((0, 0), None)]\<rparr>"
    by (simp add: fixed_answer_def value_after_solve_def no_values_def closed_model_def
        cost_terms_def lpSum_def times_def LpVariable_def routes_def)
  from none have n5: "\<not> feasible ?prob (same_value 5)"
    and n10: "\<not> feasible ?prob (same_value 10)" unfolding prob by blast+
  show ?thesis by (intro conjI) (fact wf, fact gap, fact n5, fact n10, fact full)
qed

section \<open>Results that are not Optimal\<close>

text \<open>
  The result is assembled the same way for every status. A solver that reports Infeasible
  and leaves the value 5 in the variable gives a result with total cost 5 and shipment 5.
\<close>

theorem stale_values_in_infeasible_result:
  "solve_transportation (fixed_answer LpStatusInfeasible (same_value 5))
     [[1]] [5] [10] None None None =
     Inr \<lparr>status = ''Infeasible'', total_cost = Some 5, variables = [((0, 0), Some 5)]\<rparr>"
  by (simp add: solve_transportation_def build_model_def routes_def item2_def item_def
      times_def lpSum_def var_term_def addConstraint_def truthy_def fixed_answer_def
      value_after_solve_def same_value_def LpVariable_def)

text \<open>
  C6, as the code has it. Whatever the status, the result has an entry for every route, and
  an entry is \<open>None\<close> exactly when the solver left that route's variable without a value.
  When some cost is not zero, the total cost is \<open>None\<close> exactly when a route with a non-zero
  cost has no value. Nothing is withheld on account of the status.
\<close>

theorem result_fields_follow_solver_values:
  assumes eq: "build_model costs supply demand capacities route_minimums prohibited_routes = Inr prob"
    and res: "solve_transportation solver costs supply demand capacities route_minimums
                prohibited_routes = Inr res"
  shows "map fst (variables res) = routes (length supply) (length demand) \<and>
         (\<forall>i<length supply. \<forall>j<length demand.
            map_of (variables res) (i, j) = Some None \<longleftrightarrow>
            varValue (solver prob) (i, j) = None) \<and>
         ((\<exists>i<length supply. \<exists>j<length demand. costs ! i ! j \<noteq> 0) \<longrightarrow>
            (total_cost res = None \<longleftrightarrow>
               (\<exists>i<length supply. \<exists>j<length demand.
                  costs ! i ! j \<noteq> 0 \<and> varValue (solver prob) (i, j) = None)))"
proof -
  let ?m = "length supply" and ?n = "length demand"
  let ?vals = "varValue (solver prob)"
  from build_model_shape[OF eq]
  have obj: "objective prob = cost_terms costs ?m ?n" by (simp add: closed_model_def)
  from res have r: "res = \<lparr>status = LpStatus (status_code (solver prob)),
              total_cost = value_after_solve ?vals (objective prob),
              variables = map (\<lambda>(i, j). ((i, j), ?vals (i, j))) (routes ?m ?n)\<rparr>"
    unfolding solve_transportation_built[OF eq] by simp
  have keys: "map fst (variables res) = routes ?m ?n"
    unfolding r by (simp add: case_prod_unfold comp_def)
  have vars: "\<forall>i<?m. \<forall>j<?n. map_of (variables res) (i, j) = Some None \<longleftrightarrow> ?vals (i, j) = None"
    unfolding r by (simp add: variables_lookup)
  have cost: "(\<exists>i<?m. \<exists>j<?n. costs ! i ! j \<noteq> 0) \<longrightarrow>
      (total_cost res = None \<longleftrightarrow>
         (\<exists>i<?m. \<exists>j<?n. costs ! i ! j \<noteq> 0 \<and> ?vals (i, j) = None))"
  proof
    assume "\<exists>i<?m. \<exists>j<?n. costs ! i ! j \<noteq> 0"
    then obtain i j where "i < ?m" "j < ?n" "costs ! i ! j \<noteq> 0" by blast
    then have ne: "cost_terms costs ?m ?n \<noteq> []" by (rule cost_terms_nonempty)
    have "total_cost res = None \<longleftrightarrow>
        (\<exists>t\<in>set (cost_terms costs ?m ?n). ?vals (var_name (fst t)) = None)"
      unfolding r obj using ne by (simp add: value_after_solve_def affine_value_None_iff)
    then show "total_cost res = None \<longleftrightarrow>
         (\<exists>i<?m. \<exists>j<?n. costs ! i ! j \<noteq> 0 \<and> ?vals (i, j) = None)"
      unfolding cost_terms_unvalued .
  qed
  show ?thesis by (intro conjI) (fact keys, fact vars, fact cost)
qed

theorem result_fields_follow_solver_values_witness:
  "build_model [[- 1]] [7] [0] None None None = Inr (closed_model [[- 1]] [7] [0] None None None) \<and>
   solve_transportation (fixed_answer LpStatusUnbounded (same_value 7))
     [[- 1]] [7] [0] None None None =
     Inr \<lparr>status = ''Unbounded'', total_cost = Some (- 7), variables = [((0, 0), Some 7)]\<rparr> \<and>
   [[- 1 :: real]] ! 0 ! 0 \<noteq> 0 \<and>
   varValue (fixed_answer LpStatusUnbounded (same_value 7)
              (closed_model [[- 1]] [7] [0] None None None)) (0, 0) \<noteq> None \<and>
   total_cost \<lparr>status = ''Unbounded'', total_cost = Some (- 7 :: real),
               variables = [((0 :: nat, 0 :: nat), Some (7 :: real))]\<rparr> \<noteq> None"
proof -
  let ?prob = "closed_model [[- 1]] [7] [0] None None None"
  let ?solver = "fixed_answer LpStatusUnbounded (same_value 7)"
  let ?res = "\<lparr>status = ''Unbounded'', total_cost = Some (- 7 :: real),
               variables = [((0 :: nat, 0 :: nat), Some (7 :: real))]\<rparr>"
  have built: "build_model [[- 1]] [7] [0] None None None = Inr ?prob"
    by (rule build_model_succeeds)
       (simp add: well_formed_def covers_def routes_def truthy_def)
  have res: "solve_transportation ?solver [[- 1]] [7] [0] None None None = Inr ?res"
    unfolding solve_transportation_built[OF built]
    by (simp add: fixed_answer_def value_after_solve_def same_value_def closed_model_def
        cost_terms_def lpSum_def times_def LpVariable_def routes_def)
  have v: "varValue (?solver ?prob) (0, 0) \<noteq> None"
    by (simp add: fixed_answer_def same_value_def)
  have c: "[[- 1 :: real]] ! 0 ! 0 \<noteq> 0" by simp
  have some: "\<exists>i<length [7 :: real]. \<exists>j<length [0 :: real]. [[- 1 :: real]] ! i ! j \<noteq> 0"
    by simp
  note main = result_fields_follow_solver_values[OF built res, THEN conjunct2, THEN conjunct2,
      rule_format, OF some]
  have "total_cost ?res \<noteq> None"
    unfolding main by (simp add: fixed_answer_def same_value_def)
  with built res c v show ?thesis by (intro conjI)
qed

end
